theory Spec2Isabelle
  imports Main "HOL-Library.Word"
begin

unbundle bit_operations_syntax

section \<open>Strings, paths and case folding\<close>

text \<open>
  A Go string is modelled by the sequence of code points that ranging over it yields.
  The bytes \<open>'.'\<close> and \<open>'/'\<close> that \<open>filepath.Ext\<close> looks for never occur inside a
  multi-byte UTF-8 sequence, so scanning code points and scanning bytes find the same
  suffix.
\<close>

type_synonym rune = nat
type_synonym gostring = "rune list"

definition gostr :: "string \<Rightarrow> gostring" where
  "gostr s = map of_char s"

definition RuneSelf :: rune where
  "RuneSelf = 128"

definition dot :: rune where
  "dot = 46"

definition slash :: rune where
  "slash = 47"

definition colon :: rune where
  "colon = 58"

text \<open>
  \<open>filepath.Ext\<close> (Unix): walk back from the end of the path while the character is not
  a path separator; at the first dot return the suffix that starts there; otherwise the
  empty string. \<open>ext_scan\<close> walks the reversed path and carries the suffix passed so far.
\<close>

fun ext_scan :: "gostring \<Rightarrow> gostring \<Rightarrow> gostring" where
  "ext_scan [] suf = []"
| "ext_scan (c # cs) suf =
     (if c = slash then []
      else if c = dot then c # suf
      else ext_scan cs (c # suf))"

definition Ext :: "gostring \<Rightarrow> gostring" where
  "Ext path = ext_scan (rev path) []"

text \<open>
  \<open>strings.EqualFold\<close> compares two strings rune by rune. Two runes match when they
  are equal; when both are ASCII, when the smaller is an upper-case letter and the larger
  is its lower-case form; otherwise when the larger lies in the simple case-folding orbit
  of the smaller (\<open>unicode.SimpleFold\<close>). For an ASCII rune that orbit leaves ASCII only
  at \<open>k\<close> (to the Kelvin sign U+212A) and at \<open>s\<close> (to the long s U+017F). The orbits of
  the code points beyond ASCII come from the Unicode tables, which are no part of this
  program: they are the parameter \<open>uni\<close>, asked only for a smaller rune that is not ASCII.
\<close>

definition fold_orbit :: "(rune \<Rightarrow> rune \<Rightarrow> bool) \<Rightarrow> rune \<Rightarrow> rune \<Rightarrow> bool" where
  "fold_orbit uni lo hi =
     (if lo < RuneSelf
      then ((lo = 75 \<or> lo = 107) \<and> hi = 8490) \<or> ((lo = 83 \<or> lo = 115) \<and> hi = 383)
      else uni lo hi)"

definition rune_fold :: "(rune \<Rightarrow> rune \<Rightarrow> bool) \<Rightarrow> rune \<Rightarrow> rune \<Rightarrow> bool" where
  "rune_fold uni sr tr =
     (if tr = sr then True
      else (let lo = min sr tr; hi = max sr tr
            in if hi < RuneSelf then 65 \<le> lo \<and> lo \<le> 90 \<and> hi = lo + 32
               else fold_orbit uni lo hi))"

fun EqualFold :: "(rune \<Rightarrow> rune \<Rightarrow> bool) \<Rightarrow> gostring \<Rightarrow> gostring \<Rightarrow> bool" where
  "EqualFold uni [] t = (t = [])"
| "EqualFold uni (sr # s) [] = False"
| "EqualFold uni (sr # s) (tr # t) =
     (if rune_fold uni sr tr then EqualFold uni s t else False)"

text \<open>Lower-casing of ASCII letters, to state what folding means on ASCII strings.\<close>

definition ascii_lower :: "rune \<Rightarrow> rune" where
  "ascii_lower c = (if 65 \<le> c \<and> c \<le> 90 then c + 32 else c)"

section \<open>Configuration\<close>

record RcloneConfig =
  RemoteName :: gostring
  AlbumName :: gostring
  DeleteAfterUpload :: bool
  CheckDuplicates :: bool

record LoggingConfig =
  Level :: gostring
  FilePath :: gostring
  MaxSize :: int
  MaxBackups :: int
  MaxAge :: int

record UploadConfig =
  ConcurrentUploads :: int
  WaitTime :: int
  RetryCount :: int
  RetryInterval :: int

record Config =
  WatchDirectory :: gostring
  SupportedExtensions :: "gostring list"
  Rclone :: RcloneConfig
  Logging :: LoggingConfig
  Upload :: UploadConfig

section \<open>The uploader and the world it acts on\<close>

text \<open>
  A buffered Go channel of strings: the buffered items oldest first, the capacity given
  to \<open>make\<close>, and whether \<open>close\<close> has been called.
\<close>

record chan =
  buf :: "gostring list"
  cap :: nat
  closed :: bool

text \<open>
  The fields of \<open>PhotoUploader\<close> that carry data: the configuration, the upload channel
  and whether the context has been cancelled. The logger shows as \<open>Log\<close> events; the
  watcher handle and the wait group carry nothing the functions below read.
\<close>

record PhotoUploader =
  config :: Config
  uploadChan :: chan
  ctx_done :: bool

section \<open>Extension filter\<close>

fun supported_loop :: "(rune \<Rightarrow> rune \<Rightarrow> bool) \<Rightarrow> gostring \<Rightarrow> gostring list \<Rightarrow> bool" where
  "supported_loop uni ext [] = False"
| "supported_loop uni ext (supportedExt # rest) =
     (if EqualFold uni ext supportedExt then True else supported_loop uni ext rest)"

definition isSupportedFile ::
  "(rune \<Rightarrow> rune \<Rightarrow> bool) \<Rightarrow> 'a PhotoUploader_scheme \<Rightarrow> gostring \<Rightarrow> bool" where
  "isSupportedFile uni p filePath =
     supported_loop uni (Ext filePath) (SupportedExtensions (config p))"


section \<open>Effects\<close>

text \<open>
  One goroutine is followed at a time. What it does to the outside is appended to a
  list of events, in program order: calls of the logger, sleeps, \<open>os.Stat\<close>, runs of
  the external tool, \<open>os.Remove\<close>, and the sends and receives on the upload channel.
\<close>

datatype level = DebugLevel | InfoLevel | WarnLevel | ErrorLevel

datatype event =
    Log level
  | Sleep "64 word"
  | Stat gostring
  | Exec gostring "gostring list"
  | Remove gostring
  | Send gostring
  | Recv gostring

text \<open>
  The world extends the uploader with the set of paths that exist in the file system,
  the set of paths the operating system refuses to remove (a directory that is not
  empty, a read-only parent, a missing permission), the events so far, and the number of
  runs of the external tool so far.
\<close>

record world = PhotoUploader +
  files :: "gostring set"
  undeletable :: "gostring set"
  events :: "event list"
  runs :: nat

datatype run_result = Exited int | NotStarted

datatype error =
    ConfigLoadFailed
  | WatcherInitFailed
  | FileMissing gostring
  | UploadFailed int
  | RemoveFailed gostring

definition emit :: "event \<Rightarrow> world \<Rightarrow> world" where
  "emit e w = w\<lparr>events := events w @ [e]\<rparr>"

definition logf :: "level \<Rightarrow> world \<Rightarrow> world" where
  "logf l w = emit (Log l) w"

text \<open>
  \<open>time.Duration(n) * time.Second\<close>: a signed 64-bit count of nanoseconds, the
  product wrapping around. \<open>time.Sleep\<close> takes no context: it returns when the
  duration has passed, and at once when the duration is not positive.
\<close>

definition Second :: "64 word" where
  "Second = 1000000000"

definition seconds :: "int \<Rightarrow> 64 word" where
  "seconds n = word_of_int n * Second"

definition time_Sleep :: "64 word \<Rightarrow> world \<Rightarrow> world" where
  "time_Sleep d w = emit (Sleep d) w"

definition pause :: "64 word \<Rightarrow> int" where
  "pause d = max 0 (sint d)"

fun elapsed :: "event list \<Rightarrow> int" where
  "elapsed [] = 0"
| "elapsed (Sleep d # es) = pause d + elapsed es"
| "elapsed (e # es) = elapsed es"

text \<open>
  The file system is the set of paths that exist; of the functions below only
  \<open>os.Remove\<close> changes it. \<open>os.Stat\<close> followed by \<open>os.IsNotExist\<close> tells
  whether the path is absent. \<open>os.Remove\<close> deletes an existing path unless the
  operating system refuses; it returns an error, and leaves the file system as it is,
  when it refuses and when the path is absent.
\<close>

definition os_Stat_IsNotExist :: "gostring \<Rightarrow> world \<Rightarrow> bool \<times> world" where
  "os_Stat_IsNotExist path w = (path \<notin> files w, emit (Stat path) w)"

definition os_Remove :: "gostring \<Rightarrow> world \<Rightarrow> error option \<times> world" where
  "os_Remove path w =
     (if path \<in> files w \<and> path \<notin> undeletable w
      then (None, emit (Remove path) (w\<lparr>files := files w - {path}\<rparr>))
      else (Some (RemoveFailed path), emit (Remove path) w))"

text \<open>
  \<open>exec.Command("rclone", args...).Run()\<close>. The tool is outside the program: \<open>tool n\<close>
  is how its \<open>n\<close>-th run ends, either with an exit status or without having started.
  \<open>Run\<close> returns nil exactly for exit status zero.
\<close>

definition cmd_Run :: "(nat \<Rightarrow> run_result) \<Rightarrow> gostring list \<Rightarrow> world \<Rightarrow> run_result \<times> world" where
  "cmd_Run tool args w =
     (tool (runs w), emit (Exec (gostr ''rclone'') args) (w\<lparr>runs := Suc (runs w)\<rparr>))"

definition run_failed :: "run_result \<Rightarrow> bool" where
  "run_failed r = (r \<noteq> Exited 0)"

section \<open>Channels and select\<close>

definition make_chan :: "nat \<Rightarrow> chan" where
  "make_chan n = \<lparr>buf = [], cap = n, closed = False\<rparr>"

definition chan_push :: "gostring \<Rightarrow> chan \<Rightarrow> chan" where
  "chan_push x c = c\<lparr>buf := buf c @ [x]\<rparr>"

text \<open>
  A send can proceed when the buffer has room, and also on a closed channel, where it
  panics. A receive can proceed when an item is buffered, and also on a closed channel,
  where it yields \<open>ok = false\<close> once the buffer is drained.
\<close>

definition send_ready :: "chan \<Rightarrow> bool" where
  "send_ready c = (closed c \<or> length (buf c) < cap c)"

definition recv_ready :: "chan \<Rightarrow> bool" where
  "recv_ready c = (buf c \<noteq> [] \<or> closed c)"

text \<open>
  A \<open>select\<close> over \<open>ctx.Done()\<close> and one channel operation. When both can proceed Go
  picks one pseudo-randomly: \<open>pick\<close> tells whether the channel operation wins. When
  neither can, the goroutine stays parked at the select.
\<close>

datatype choice = TakeDone | TakeChan | Park

definition select2 :: "bool \<Rightarrow> bool \<Rightarrow> bool \<Rightarrow> choice" where
  "select2 pick done_ready chan_ready =
     (if done_ready \<and> chan_ready then (if pick then TakeChan else TakeDone)
      else if done_ready then TakeDone
      else if chan_ready then TakeChan
      else Park)"

section \<open>Construction and shutdown\<close>

text \<open>
  \<open>NewPhotoUploader\<close>. Reading and parsing the configuration file and opening the
  notification handle are outside the program: \<open>loaded\<close> is what \<open>loadConfig\<close> returned
  and \<open>watcher_ok\<close> whether \<open>fsnotify.NewWatcher\<close> succeeded.
\<close>

definition NewPhotoUploader :: "Config option \<Rightarrow> bool \<Rightarrow> error + PhotoUploader" where
  "NewPhotoUploader loaded watcher_ok =
     (case loaded of
        None \<Rightarrow> Inl ConfigLoadFailed
      | Some cfg \<Rightarrow>
          if \<not> watcher_ok then Inl WatcherInitFailed
          else Inr \<lparr>config = cfg, uploadChan = make_chan 100, ctx_done = False\<rparr>)"

text \<open>\<open>Stop\<close> up to the wait for the goroutines: cancel the context, close the channel.\<close>

definition Stop :: "world \<Rightarrow> world" where
  "Stop w =
     (let w1 = logf InfoLevel w
      in w1\<lparr>ctx_done := True, uploadChan := (uploadChan w1)\<lparr>closed := True\<rparr>\<rparr>)"

section \<open>The watcher\<close>

datatype handled = Ignored | Enqueued | Abandoned | SendParked | SendPanicked

definition handleFileCreated ::
  "(rune \<Rightarrow> rune \<Rightarrow> bool) \<Rightarrow> bool \<Rightarrow> gostring \<Rightarrow> world \<Rightarrow> handled \<times> world" where
  "handleFileCreated uni pick filePath w =
     (if \<not> isSupportedFile uni w filePath then (Ignored, w)
      else
        (let w1 = logf InfoLevel w;
             w2 = time_Sleep (seconds (WaitTime (Upload (config w1)))) w1
         in case select2 pick (ctx_done w2) (send_ready (uploadChan w2)) of
              TakeDone \<Rightarrow> (Abandoned, w2)
            | Park \<Rightarrow> (SendParked, w2)
            | TakeChan \<Rightarrow>
                if closed (uploadChan w2) then (SendPanicked, w2)
                else (Enqueued,
                      logf DebugLevel
                        (emit (Send filePath)
                           (w2\<lparr>uploadChan := chan_push filePath (uploadChan w2)\<rparr>)))))"

text \<open>
  The branch of \<open>watchFiles\<close> for an event received from the notification channel:
  \<open>event.Op&fsnotify.Create == fsnotify.Create\<close>, with \<open>fsnotify.Create = 1\<close>.
\<close>

record fsevent =
  Name :: gostring
  Op :: "32 word"

definition Create :: "32 word" where
  "Create = 1"

definition watch_event ::
  "(rune \<Rightarrow> rune \<Rightarrow> bool) \<Rightarrow> bool \<Rightarrow> fsevent \<Rightarrow> world \<Rightarrow> handled \<times> world" where
  "watch_event uni pick ev w =
     (if Op ev AND Create = Create then handleFileCreated uni pick (Name ev) w
      else (Ignored, w))"

section \<open>The upload\<close>

definition rclone_args :: "'a PhotoUploader_scheme \<Rightarrow> gostring \<Rightarrow> gostring list" where
  "rclone_args p filePath =
     (let remotePath = RemoteName (Rclone (config p)) @ [colon] @ AlbumName (Rclone (config p));
          args = [gostr ''copy'', filePath, remotePath]
      in if CheckDuplicates (Rclone (config p)) then args @ [gostr ''--checksum''] else args)"

text \<open>
  The retry loop of \<open>uploadFile\<close>, \<open>for i := 0; i < RetryCount; i++\<close>. The counter
  stays below \<open>RetryCount\<close>, so neither \<open>i + 1\<close> nor \<open>RetryCount - 1\<close> (read only
  inside the loop) leaves the range of a Go \<open>int\<close>.
\<close>

function retry_loop ::
  "(nat \<Rightarrow> run_result) \<Rightarrow> gostring list \<Rightarrow> int \<Rightarrow> world \<Rightarrow> error option \<times> world" where
  "retry_loop tool args i w =
     (if i < RetryCount (Upload (config w)) then
        (case cmd_Run tool args w of
           (r, w1) \<Rightarrow>
             if run_failed r then
               (let w2 = logf WarnLevel w1
                in if i < RetryCount (Upload (config w)) - 1
                   then retry_loop tool args (i + 1)
                          (time_Sleep (seconds (RetryInterval (Upload (config w)))) w2)
                   else (Some (UploadFailed (RetryCount (Upload (config w)))), w2))
             else (None, w1))
      else (None, w))"
  by pat_completeness auto
termination
  by (relation "measure (\<lambda>(tool, args, i, w). nat (RetryCount (Upload (config w)) - i))")
    (auto simp: cmd_Run_def logf_def time_Sleep_def emit_def)

definition uploadFile ::
  "(nat \<Rightarrow> run_result) \<Rightarrow> gostring \<Rightarrow> world \<Rightarrow> error option \<times> world" where
  "uploadFile tool filePath w =
     (case os_Stat_IsNotExist filePath w of
        (notExist, w1) \<Rightarrow>
          if notExist then (Some (FileMissing filePath), w1)
          else retry_loop tool (rclone_args w1 filePath) 0 w1)"

section \<open>The worker\<close>

text \<open>The body of the worker's loop for a path received from the channel.\<close>

definition process_item :: "(nat \<Rightarrow> run_result) \<Rightarrow> gostring \<Rightarrow> world \<Rightarrow> world" where
  "process_item tool filePath w =
     (let w1 = logf InfoLevel w
      in case uploadFile tool filePath w1 of
           (Some err, w2) \<Rightarrow> logf ErrorLevel w2
         | (None, w2) \<Rightarrow>
             (let w3 = logf InfoLevel w2
              in if DeleteAfterUpload (Rclone (config w3)) then
                   (case os_Remove filePath w3 of
                      (Some err, w4) \<Rightarrow> logf ErrorLevel w4
                    | (None, w4) \<Rightarrow> logf InfoLevel w4)
                 else w3))"

datatype stepped = Next | Returned | RecvParked

definition worker_iter ::
  "(nat \<Rightarrow> run_result) \<Rightarrow> bool \<Rightarrow> world \<Rightarrow> stepped \<times> world" where
  "worker_iter tool pick w =
     (case select2 pick (ctx_done w) (recv_ready (uploadChan w)) of
        TakeDone \<Rightarrow> (Returned, w)
      | Park \<Rightarrow> (RecvParked, w)
      | TakeChan \<Rightarrow>
          (case buf (uploadChan w) of
             [] \<Rightarrow> (Returned, w)
           | filePath # rest \<Rightarrow>
               (Next,
                process_item tool filePath
                  (emit (Recv filePath) (w\<lparr>uploadChan := (uploadChan w)\<lparr>buf := rest\<rparr>\<rparr>)))))"

text \<open>
  The worker's loop. \<open>picks n\<close> is the pseudo-random choice of the \<open>n\<close>-th select.
  The loop ends when the select takes \<open>ctx.Done()\<close> or finds the channel closed and
  drained; with an empty open channel and no cancellation the goroutine stays parked.
\<close>

function uploadWorker_loop ::
  "(nat \<Rightarrow> run_result) \<Rightarrow> (nat \<Rightarrow> bool) \<Rightarrow> world \<Rightarrow> stepped \<times> world" where
  "uploadWorker_loop tool picks w =
     (case worker_iter tool (picks 0) w of
        (Next, w') \<Rightarrow> uploadWorker_loop tool (\<lambda>n. picks (Suc n)) w'
      | (Returned, w') \<Rightarrow> (Returned, w')
      | (RecvParked, w') \<Rightarrow> (RecvParked, w'))"
  by pat_completeness auto
termination
proof (relation "measure (\<lambda>(tool, picks, w). length (buf (uploadChan w)))", goal_cases)
  case 1
  show ?case by simp
next
  case (2 tool picks w st w')
  have loop: "uploadChan (snd (retry_loop t a i v)) = uploadChan v" for t a i v
  proof (induction t a i v rule: retry_loop.induct)
    case (1 t a i v)
    show ?case
      using 1
      by (subst retry_loop.simps)
        (auto simp del: retry_loop.simps
          simp: cmd_Run_def logf_def time_Sleep_def emit_def Let_def split: prod.splits)
  qed
  have up: "uploadChan (snd (uploadFile t f v)) = uploadChan v" for t f v
    using loop [of t _ 0 "emit (Stat f) v"]
    by (simp add: uploadFile_def os_Stat_IsNotExist_def emit_def)
  have item: "uploadChan (process_item t f v) = uploadChan v" for t f v
    using up [of t f "logf InfoLevel v"]
    by (auto simp: process_item_def os_Remove_def logf_def emit_def Let_def
        split: prod.splits option.splits)
  from 2 have "worker_iter tool (picks 0) w = (Next, w')" by simp
  then have "length (buf (uploadChan w')) < length (buf (uploadChan w))"
    by (auto simp: worker_iter_def item emit_def split: choice.splits list.splits)
  then show ?case by simp
qed

definition uploadWorker ::
  "(nat \<Rightarrow> run_result) \<Rightarrow> (nat \<Rightarrow> bool) \<Rightarrow> world \<Rightarrow> stepped \<times> world" where
  "uploadWorker tool picks w = uploadWorker_loop tool picks (logf InfoLevel w)"

section \<open>Notions used in the statements\<close>

text \<open>The events a function appended: those of the later world beyond the earlier one's.\<close>

definition added :: "world \<Rightarrow> world \<Rightarrow> event list" where
  "added w w' = drop (length (events w)) (events w')"

definition is_Exec :: "event \<Rightarrow> bool" where
  "is_Exec e = (case e of Exec prog args \<Rightarrow> True | _ \<Rightarrow> False)"

definition is_Sleep :: "event \<Rightarrow> bool" where
  "is_Sleep e = (case e of Sleep d \<Rightarrow> True | _ \<Rightarrow> False)"

definition is_Remove :: "event \<Rightarrow> bool" where
  "is_Remove e = (case e of Remove path \<Rightarrow> True | _ \<Rightarrow> False)"

definition is_Send :: "event \<Rightarrow> bool" where
  "is_Send e = (case e of Send path \<Rightarrow> True | _ \<Rightarrow> False)"

text \<open>The sample configuration of the README, and a world around it with one photo.\<close>

definition demo_config :: Config where
  "demo_config =
     \<lparr>WatchDirectory = gostr ''/data/photos'',
      SupportedExtensions = [gostr ''.heif'', gostr ''.heic'', gostr ''.HEIF'', gostr ''.HEIC''],
      Rclone = \<lparr>RemoteName = gostr ''google-photos'', AlbumName = gostr ''Uploaded Photos'',
                DeleteAfterUpload = False, CheckDuplicates = True\<rparr>,
      Logging = \<lparr>Level = gostr ''info'', FilePath = [], MaxSize = 0, MaxBackups = 0,
                 MaxAge = 0\<rparr>,
      Upload = \<lparr>ConcurrentUploads = 2, WaitTime = 30, RetryCount = 3, RetryInterval = 5\<rparr>\<rparr>"

definition demo_photo :: gostring where
  "demo_photo = gostr ''/data/photos/a.heic''"

definition demo_world :: world where
  "demo_world =
     \<lparr>config = demo_config, uploadChan = make_chan 100, ctx_done = False,
      files = {demo_photo}, undeletable = {}, events = [], runs = 0\<rparr>"

text \<open>The same world with configured entries that lack the leading dot.\<close>

definition nodot_world :: world where
  "nodot_world = demo_world\<lparr>config := demo_config\<lparr>SupportedExtensions := [gostr ''heic'', []]\<rparr>\<rparr>"

text \<open>The same world with \<open>delete_after_upload\<close> switched on.\<close>

definition delete_world :: world where
  "delete_world =
     demo_world\<lparr>config := demo_config\<lparr>Rclone := (Rclone demo_config)\<lparr>DeleteAfterUpload := True\<rparr>\<rparr>\<rparr>"

text \<open>
  The world with \<open>delete_after_upload\<close> where the operating system refuses to remove
  the photo.
\<close>

definition locked_world :: world where
  "locked_world = delete_world\<lparr>undeletable := {demo_photo}\<rparr>"

text \<open>The same again with a retry count of zero, and a path that does not exist.\<close>

definition zero_retry_world :: world where
  "zero_retry_world =
     delete_world\<lparr>config := (config delete_world)\<lparr>Upload := (Upload demo_config)\<lparr>RetryCount := 0\<rparr>\<rparr>\<rparr>"

definition zero_retry_locked_world :: world where
  "zero_retry_locked_world = zero_retry_world\<lparr>undeletable := {demo_photo}\<rparr>"

definition gone_photo :: gostring where
  "gone_photo = gostr ''/data/photos/gone.heic''"

text \<open>The sample world with the photo waiting in the upload channel.\<close>

definition queued_world :: world where
  "queued_world = demo_world\<lparr>uploadChan := (make_chan 100)\<lparr>buf := [demo_photo]\<rparr>\<rparr>"

text \<open>The sample world with \<open>check_duplicates\<close> switched off.\<close>

definition nodup_world :: world where
  "nodup_world =
     demo_world\<lparr>config := demo_config\<lparr>Rclone := (Rclone demo_config)\<lparr>CheckDuplicates := False\<rparr>\<rparr>\<rparr>"

text \<open>
  The sample world after cancellation, with the upload channel still open and filled to
  its capacity; a path the sample configuration does not list.
\<close>

definition full_cancelled_world :: world where
  "full_cancelled_world =
     demo_world\<lparr>ctx_done := True,
                uploadChan := (make_chan 100)\<lparr>buf := replicate 100 demo_photo\<rparr>\<rparr>"

definition text_file :: gostring where
  "text_file = gostr ''/data/photos/notes.txt''"

text \<open>A configuration that differs from the sample in every upload setting.\<close>

definition big_config :: Config where
  "big_config =
     demo_config\<lparr>Upload := \<lparr>ConcurrentUploads = 1000, WaitTime = 1, RetryCount = 1000,
                             RetryInterval = 1000\<rparr>\<rparr>"

text \<open>The sample world after cancellation.\<close>

definition cancelled_world :: world where
  "cancelled_world = demo_world\<lparr>ctx_done := True\<rparr>"

declare retry_loop.simps [simp del]
declare uploadWorker_loop.simps [simp del]

section \<open>Properties of the extension filter\<close>

lemma ext_scan_shape:
  "ext_scan cs suf \<noteq> [] \<Longrightarrow>
     \<exists>ds. ext_scan cs suf = dot # ds @ suf \<and> dot \<notin> set ds \<and> slash \<notin> set ds
       \<and> (\<exists>pre. cs = rev ds @ dot # pre)"
proof (induction cs arbitrary: suf)
  case Nil
  then show ?case by simp
next
  case (Cons c cs)
  show ?case
  proof (cases "c = slash")
    case True
    with Cons.prems show ?thesis by simp
  next
    case notslash: False
    show ?thesis
    proof (cases "c = dot")
      case True
      with notslash show ?thesis by simp
    next
      case False
      with notslash Cons.prems have "ext_scan cs (c # suf) \<noteq> []" by simp
      from Cons.IH [OF this] obtain ds pre where
        ds: "ext_scan cs (c # suf) = dot # ds @ c # suf" "dot \<notin> set ds" "slash \<notin> set ds"
          "cs = rev ds @ dot # pre"
        by auto
      have "ext_scan (c # cs) suf = dot # (ds @ [c]) @ suf"
        using notslash False ds(1) by simp
      moreover have "dot \<notin> set (ds @ [c])" "slash \<notin> set (ds @ [c])"
        using ds(2,3) notslash False by auto
      moreover have "c # cs = rev (ds @ [c]) @ dot # pre"
        using ds(4) by simp
      ultimately show ?thesis by blast
    qed
  qed
qed

lemma Ext_shape:
  assumes "Ext path \<noteq> []"
  shows "\<exists>ds pre. Ext path = dot # ds \<and> path = pre @ dot # ds
           \<and> dot \<notin> set ds \<and> slash \<notin> set ds"
proof -
  from assms have "ext_scan (rev path) [] \<noteq> []" by (simp add: Ext_def)
  from ext_scan_shape [OF this] obtain ds pre where
    ds: "ext_scan (rev path) [] = dot # ds @ []" "dot \<notin> set ds" "slash \<notin> set ds"
      "rev path = rev ds @ dot # pre"
    by blast
  from ds(4) have "rev (rev path) = rev (rev ds @ dot # pre)" by simp
  then have "path = rev pre @ dot # ds" by simp
  with ds(1,2,3) show ?thesis by (auto simp: Ext_def)
qed

lemma rune_fold_dot:
  "tr \<noteq> dot \<Longrightarrow> \<not> rune_fold uni dot tr"
  by (auto simp: rune_fold_def fold_orbit_def dot_def RuneSelf_def Let_def min_def max_def)

lemma EqualFold_Nil_right: "EqualFold uni s [] = (s = [])"
  by (cases s) simp_all

lemma EqualFold_no_dot:
  assumes "s \<noteq> []" "hd s = dot" "e = [] \<or> hd e \<noteq> dot"
  shows "\<not> EqualFold uni s e"
proof (cases e)
  case Nil
  with assms(1) show ?thesis by (simp add: EqualFold_Nil_right)
next
  case (Cons tr t)
  from assms(1,2) obtain s' where s: "s = dot # s'" by (cases s) auto
  from Cons assms(3) have "tr \<noteq> dot" by simp
  then show ?thesis using s Cons by (simp add: rune_fold_dot)
qed

lemma supported_loop_iff:
  "supported_loop uni ext es = (\<exists>e\<in>set es. EqualFold uni ext e)"
  by (induction es) auto

lemma rune_fold_ascii:
  "a < 128 \<Longrightarrow> b < 128 \<Longrightarrow> rune_fold uni a b = (ascii_lower a = ascii_lower b)"
  by (auto simp: rune_fold_def ascii_lower_def RuneSelf_def Let_def min_def max_def)

lemma EqualFold_ascii:
  "\<forall>c\<in>set s. c < 128 \<Longrightarrow> \<forall>c\<in>set t. c < 128 \<Longrightarrow>
     EqualFold uni s t = (map ascii_lower s = map ascii_lower t)"
proof (induction uni s t rule: EqualFold.induct)
  case (1 uni t)
  then show ?case by auto
next
  case (2 uni sr s)
  then show ?case by simp
next
  case (3 uni sr s tr t)
  then show ?case by (simp add: rune_fold_ascii)
qed

text \<open>
  C10. The filter takes \<open>filepath.Ext\<close> of the path, which is empty or starts with the
  final dot of the last path element, and accepts the path when \<open>strings.EqualFold\<close>
  equates that extension with some configured entry. On ASCII strings \<open>EqualFold\<close> is
  equality after lower-casing. An entry that does not start with a dot is never equal
  to a non-empty extension, and a path without extension is accepted exactly when the
  empty string is configured.
\<close>

theorem isSupportedFile_matching:
  "(isSupportedFile uni p path
      = (\<exists>e\<in>set (SupportedExtensions (config p)). EqualFold uni (Ext path) e))
   \<and> (Ext path \<noteq> [] \<longrightarrow>
        (\<exists>ds pre. Ext path = dot # ds \<and> path = pre @ dot # ds
           \<and> dot \<notin> set ds \<and> slash \<notin> set ds))
   \<and> ((\<forall>c\<in>set s. c < 128) \<and> (\<forall>c\<in>set t. c < 128) \<longrightarrow>
        EqualFold uni s t = (map ascii_lower s = map ascii_lower t))
   \<and> (Ext path \<noteq> [] \<and> (e = [] \<or> hd e \<noteq> dot) \<longrightarrow> \<not> EqualFold uni (Ext path) e)
   \<and> (Ext path \<noteq> [] \<and> (\<forall>e\<in>set (SupportedExtensions (config p)). e = [] \<or> hd e \<noteq> dot)
        \<longrightarrow> \<not> isSupportedFile uni p path)
   \<and> (Ext path = [] \<longrightarrow>
        isSupportedFile uni p path = ([] \<in> set (SupportedExtensions (config p))))"
proof -
  have iff: "isSupportedFile uni p path
      = (\<exists>e\<in>set (SupportedExtensions (config p)). EqualFold uni (Ext path) e)"
    by (simp add: isSupportedFile_def supported_loop_iff)
  have shape: "Ext path \<noteq> [] \<longrightarrow>
        (\<exists>ds pre. Ext path = dot # ds \<and> path = pre @ dot # ds
           \<and> dot \<notin> set ds \<and> slash \<notin> set ds)"
    using Ext_shape by blast
  have ascii: "(\<forall>c\<in>set s. c < 128) \<and> (\<forall>c\<in>set t. c < 128) \<longrightarrow>
        EqualFold uni s t = (map ascii_lower s = map ascii_lower t)"
    using EqualFold_ascii by blast
  have nodot: "\<not> EqualFold uni (Ext path) e'"
    if "Ext path \<noteq> []" "e' = [] \<or> hd e' \<noteq> dot" for e'
  proof -
    from Ext_shape [OF that(1)] have "hd (Ext path) = dot" by auto
    with that show ?thesis by (rule_tac EqualFold_no_dot) auto
  qed
  have all_nodot: "Ext path \<noteq> []
      \<and> (\<forall>e\<in>set (SupportedExtensions (config p)). e = [] \<or> hd e \<noteq> dot)
        \<longrightarrow> \<not> isSupportedFile uni p path"
    using iff nodot by blast
  have empty: "Ext path = [] \<longrightarrow>
        isSupportedFile uni p path = ([] \<in> set (SupportedExtensions (config p)))"
    using iff by auto
  from iff shape ascii nodot all_nodot empty show ?thesis by blast
qed

theorem isSupportedFile_matching_witness:
  "Ext (gostr ''/data/photos/IMG.HEIC'') = gostr ''.HEIC''
   \<and> EqualFold (\<lambda>a b. False) (gostr ''.HEIC'') (gostr ''.heic'')
   \<and> isSupportedFile (\<lambda>a b. False) demo_world (gostr ''/data/photos/IMG.HEIC'')
   \<and> \<not> EqualFold (\<lambda>a b. False) (Ext (gostr ''/data/photos/IMG.HEIC'')) (gostr ''heic'')
   \<and> \<not> isSupportedFile (\<lambda>a b. False) nodot_world (gostr ''/data/photos/IMG.HEIC'')
   \<and> Ext (gostr ''/data/photos.d/README'') = []
   \<and> isSupportedFile (\<lambda>a b. False) nodot_world (gostr ''/data/photos.d/README'')
   \<and> \<not> isSupportedFile (\<lambda>a b. False) demo_world (gostr ''/data/photos.d/README'')"
proof -
  have ext1: "Ext (gostr ''/data/photos/IMG.HEIC'') = gostr ''.HEIC''"
    by (simp add: Ext_def gostr_def dot_def slash_def)
  have ext2: "Ext (gostr ''/data/photos.d/README'') = []"
    by (simp add: Ext_def gostr_def dot_def slash_def)
  have ne1: "Ext (gostr ''/data/photos/IMG.HEIC'') \<noteq> []"
    unfolding ext1 by (simp add: gostr_def)
  have ascii: "(\<forall>c\<in>set (gostr ''.HEIC''). c < 128) \<and> (\<forall>c\<in>set (gostr ''.heic''). c < 128)"
    by (simp add: gostr_def)
  have low: "map ascii_lower (gostr ''.HEIC'') = map ascii_lower (gostr ''.heic'')"
    by (simp add: gostr_def ascii_lower_def)
  have nodot: "gostr ''heic'' = [] \<or> hd (gostr ''heic'') \<noteq> dot"
    by (simp add: gostr_def dot_def)
  have all_nodot: "\<forall>e\<in>set (SupportedExtensions (config nodot_world)). e = [] \<or> hd e \<noteq> dot"
    by (simp add: nodot_world_def demo_world_def gostr_def dot_def)
  have mem: "[] \<in> set (SupportedExtensions (config nodot_world))"
    "[] \<notin> set (SupportedExtensions (config demo_world))"
    "gostr ''.HEIC'' \<in> set (SupportedExtensions (config demo_world))"
    by (simp_all add: nodot_world_def demo_world_def demo_config_def gostr_def)
  have self: "EqualFold (\<lambda>a b. False) (gostr ''.HEIC'') (gostr ''.HEIC'')"
    by (simp add: gostr_def rune_fold_def)
  note A = isSupportedFile_matching [of "\<lambda>a b. False" demo_world
      "gostr ''/data/photos/IMG.HEIC''" "gostr ''.HEIC''" "gostr ''.heic''" "gostr ''heic''"]
  note B = isSupportedFile_matching [of "\<lambda>a b. False" nodot_world
      "gostr ''/data/photos/IMG.HEIC''" "gostr ''.HEIC''" "gostr ''.heic''" "gostr ''heic''"]
  note C = isSupportedFile_matching [of "\<lambda>a b. False" nodot_world
      "gostr ''/data/photos.d/README''" "gostr ''.HEIC''" "gostr ''.heic''" "gostr ''heic''"]
  note D = isSupportedFile_matching [of "\<lambda>a b. False" demo_world
      "gostr ''/data/photos.d/README''" "gostr ''.HEIC''" "gostr ''.heic''" "gostr ''heic''"]
  have 1: "EqualFold (\<lambda>a b. False) (gostr ''.HEIC'') (gostr ''.heic'')"
    using A ascii low by blast
  have 2: "isSupportedFile (\<lambda>a b. False) demo_world (gostr ''/data/photos/IMG.HEIC'')"
    using A mem(3) self unfolding ext1 by blast
  have 3: "\<not> EqualFold (\<lambda>a b. False) (Ext (gostr ''/data/photos/IMG.HEIC'')) (gostr ''heic'')"
    using A ne1 nodot by blast
  have 4: "\<not> isSupportedFile (\<lambda>a b. False) nodot_world (gostr ''/data/photos/IMG.HEIC'')"
    using B ne1 all_nodot by blast
  have 5: "isSupportedFile (\<lambda>a b. False) nodot_world (gostr ''/data/photos.d/README'')"
    using C ext2 mem(1) by blast
  have 6: "\<not> isSupportedFile (\<lambda>a b. False) demo_world (gostr ''/data/photos.d/README'')"
    using D ext2 mem(2) by blast
  from ext1 1 2 3 4 ext2 5 6 show ?thesis by blast
qed

section \<open>The retry loop\<close>

lemma emit_simps:
  "events (emit e w) = events w @ [e]"
  "files (emit e w) = files w"
  "runs (emit e w) = runs w"
  "config (emit e w) = config w"
  "uploadChan (emit e w) = uploadChan w"
  "ctx_done (emit e w) = ctx_done w"
  by (simp_all add: emit_def)

lemma retry_loop_done:
  "\<not> i < RetryCount (Upload (config w)) \<Longrightarrow> retry_loop tool args i w = (None, w)"
  by (subst retry_loop.simps) simp

lemma retry_loop_ok:
  "i < RetryCount (Upload (config w)) \<Longrightarrow> \<not> run_failed (tool (runs w)) \<Longrightarrow>
     retry_loop tool args i w
       = (None, emit (Exec (gostr ''rclone'') args) (w\<lparr>runs := Suc (runs w)\<rparr>))"
  by (subst retry_loop.simps) (simp add: cmd_Run_def)

lemma retry_loop_last:
  "i < RetryCount (Upload (config w)) \<Longrightarrow> run_failed (tool (runs w)) \<Longrightarrow>
   \<not> i < RetryCount (Upload (config w)) - 1 \<Longrightarrow>
     retry_loop tool args i w
       = (Some (UploadFailed (RetryCount (Upload (config w)))),
          logf WarnLevel (emit (Exec (gostr ''rclone'') args) (w\<lparr>runs := Suc (runs w)\<rparr>)))"
  by (subst retry_loop.simps) (simp add: cmd_Run_def)

lemma retry_loop_again:
  "i < RetryCount (Upload (config w)) - 1 \<Longrightarrow> run_failed (tool (runs w)) \<Longrightarrow>
     retry_loop tool args i w
       = retry_loop tool args (i + 1)
           (time_Sleep (seconds (RetryInterval (Upload (config w))))
              (logf WarnLevel (emit (Exec (gostr ''rclone'') args) (w\<lparr>runs := Suc (runs w)\<rparr>))))"
  by (subst retry_loop.simps) (simp add: cmd_Run_def)

lemma retry_loop_shape:
  "\<exists>res tr n. retry_loop tool args i w = (res, w\<lparr>events := events w @ tr, runs := runs w + n\<rparr>)
     \<and> set tr \<subseteq> {Exec (gostr ''rclone'') args, Log WarnLevel,
                   Sleep (seconds (RetryInterval (Upload (config w))))}"
proof (induction tool args i w rule: retry_loop.induct)
  case (1 tool args i w)
  let ?K = "RetryCount (Upload (config w))"
  let ?w1 = "emit (Exec (gostr ''rclone'') args) (w\<lparr>runs := Suc (runs w)\<rparr>)"
  let ?w3 = "time_Sleep (seconds (RetryInterval (Upload (config w)))) (logf WarnLevel ?w1)"
  let ?S = "{Exec (gostr ''rclone'') args, Log WarnLevel,
             Sleep (seconds (RetryInterval (Upload (config w))))}"
  consider (stop) "\<not> i < ?K" | (ok) "i < ?K" "\<not> run_failed (tool (runs w))"
    | (final) "i < ?K" "run_failed (tool (runs w))" "\<not> i < ?K - 1"
    | (again) "i < ?K - 1" "run_failed (tool (runs w))"
    by linarith
  then show ?case
  proof cases
    case stop
    have "retry_loop tool args i w = (None, w\<lparr>events := events w @ [], runs := runs w + 0\<rparr>)"
      using stop by (simp add: retry_loop_done)
    then show ?thesis by (metis empty_set empty_subsetI)
  next
    case ok
    have "retry_loop tool args i w
        = (None, w\<lparr>events := events w @ [Exec (gostr ''rclone'') args], runs := runs w + 1\<rparr>)"
      using ok by (simp add: retry_loop_ok emit_def)
    moreover have "set [Exec (gostr ''rclone'') args] \<subseteq> ?S" by simp
    ultimately show ?thesis by blast
  next
    case final
    have "retry_loop tool args i w
        = (Some (UploadFailed ?K),
           w\<lparr>events := events w @ [Exec (gostr ''rclone'') args, Log WarnLevel],
             runs := runs w + 1\<rparr>)"
      using final by (simp add: retry_loop_last emit_def logf_def)
    moreover have "set [Exec (gostr ''rclone'') args, Log WarnLevel] \<subseteq> ?S" by simp
    ultimately show ?thesis by blast
  next
    case again
    then have lt: "i < ?K" by simp
    have cr: "(tool (runs w), ?w1) = cmd_Run tool args w" by (simp add: cmd_Run_def)
    from "1.IH" [OF lt cr again(2) refl again(1)]
    obtain res tr n where
      r: "retry_loop tool args (i + 1) ?w3
            = (res, ?w3\<lparr>events := events ?w3 @ tr, runs := runs ?w3 + n\<rparr>)"
      and tr: "set tr \<subseteq> {Exec (gostr ''rclone'') args, Log WarnLevel,
                  Sleep (seconds (RetryInterval (Upload (config ?w3))))}"
      by blast
    let ?d = "seconds (RetryInterval (Upload (config w)))"
    have "retry_loop tool args i w
        = (res, w\<lparr>events := events w @ ([Exec (gostr ''rclone'') args, Log WarnLevel, Sleep ?d] @ tr),
                  runs := runs w + (Suc n)\<rparr>)"
      using again r by (simp add: retry_loop_again emit_def logf_def time_Sleep_def)
    moreover have "set ([Exec (gostr ''rclone'') args, Log WarnLevel, Sleep ?d] @ tr) \<subseteq> ?S"
      using tr by (simp add: emit_def logf_def time_Sleep_def)
    ultimately show ?thesis by blast
  qed
qed

lemma retry_loop_all_fail:
  assumes fail: "\<forall>n. run_failed (tool n)"
  shows "n = nat (RetryCount (Upload (config w)) - 1 - i) \<Longrightarrow>
         i < RetryCount (Upload (config w)) \<Longrightarrow>
     retry_loop tool args i w
       = (Some (UploadFailed (RetryCount (Upload (config w)))),
          w\<lparr>events := events w
                 @ concat (replicate n
                     [Exec (gostr ''rclone'') args, Log WarnLevel,
                      Sleep (seconds (RetryInterval (Upload (config w))))])
                 @ [Exec (gostr ''rclone'') args, Log WarnLevel],
            runs := runs w + Suc n\<rparr>)"
proof (induction n arbitrary: i w)
  case 0
  then have "\<not> i < RetryCount (Upload (config w)) - 1" by simp
  with 0 fail show ?case
    by (simp add: retry_loop_last emit_def logf_def)
next
  case (Suc n)
  let ?K = "RetryCount (Upload (config w))"
  let ?d = "seconds (RetryInterval (Upload (config w)))"
  let ?w3 = "time_Sleep ?d (logf WarnLevel
               (emit (Exec (gostr ''rclone'') args) (w\<lparr>runs := Suc (runs w)\<rparr>)))"
  from Suc.prems have lt: "i < ?K - 1" by simp
  have cfg: "config ?w3 = config w" by (simp add: time_Sleep_def logf_def emit_def)
  have "n = nat (RetryCount (Upload (config ?w3)) - 1 - (i + 1))"
    using Suc.prems cfg by simp
  moreover have "i + 1 < RetryCount (Upload (config ?w3))" using lt cfg by simp
  ultimately have IH: "retry_loop tool args (i + 1) ?w3
       = (Some (UploadFailed (RetryCount (Upload (config ?w3)))),
          ?w3\<lparr>events := events ?w3
                 @ concat (replicate n
                     [Exec (gostr ''rclone'') args, Log WarnLevel,
                      Sleep (seconds (RetryInterval (Upload (config ?w3))))])
                 @ [Exec (gostr ''rclone'') args, Log WarnLevel],
            runs := runs ?w3 + Suc n\<rparr>)"
    by (rule Suc.IH)
  have "retry_loop tool args i w = retry_loop tool args (i + 1) ?w3"
    using lt fail by (simp add: retry_loop_again)
  also note IH
  finally show ?case
    by (simp add: time_Sleep_def logf_def emit_def)
qed

lemma retry_loop_success_iff:
  "(fst (retry_loop tool args i w) = None)
     = (RetryCount (Upload (config w)) \<le> i
        \<or> (\<exists>j < nat (RetryCount (Upload (config w)) - i). tool (runs w + j) = Exited 0))"
proof (induction tool args i w rule: retry_loop.induct)
  case (1 tool args i w)
  let ?K = "RetryCount (Upload (config w))"
  let ?w1 = "emit (Exec (gostr ''rclone'') args) (w\<lparr>runs := Suc (runs w)\<rparr>)"
  let ?w3 = "time_Sleep (seconds (RetryInterval (Upload (config w)))) (logf WarnLevel ?w1)"
  consider (stop) "\<not> i < ?K" | (ok) "i < ?K" "\<not> run_failed (tool (runs w))"
    | (final) "i < ?K" "run_failed (tool (runs w))" "\<not> i < ?K - 1"
    | (again) "i < ?K - 1" "run_failed (tool (runs w))"
    by linarith
  then show ?case
  proof cases
    case stop
    then show ?thesis by (simp add: retry_loop_done)
  next
    case ok
    then have "tool (runs w + 0) = Exited 0" "0 < nat (?K - i)"
      by (simp_all add: run_failed_def)
    then have "\<exists>j < nat (?K - i). tool (runs w + j) = Exited 0" by blast
    with ok show ?thesis by (simp add: retry_loop_ok)
  next
    case final
    then have one: "nat (?K - i) = 1" by simp
    have "\<not> (\<exists>j < nat (?K - i). tool (runs w + j) = Exited 0)"
      unfolding one using final(2) by (simp add: run_failed_def)
    with final show ?thesis by (simp add: retry_loop_last)
  next
    case again
    then have lt: "i < ?K" by simp
    have cr: "(tool (runs w), ?w1) = cmd_Run tool args w" by (simp add: cmd_Run_def)
    have cfg: "config ?w3 = config w" "runs ?w3 = Suc (runs w)"
      by (simp_all add: time_Sleep_def logf_def emit_def)
    from "1.IH" [OF lt cr again(2) refl again(1)]
    have IH: "(fst (retry_loop tool args (i + 1) ?w3) = None)
        = (?K \<le> i + 1 \<or> (\<exists>j < nat (?K - (i + 1)). tool (Suc (runs w) + j) = Exited 0))"
      unfolding cfg .
    have nz: "tool (runs w) \<noteq> Exited 0" using again(2) by (simp add: run_failed_def)
    have "(\<exists>j < nat (?K - i). tool (runs w + j) = Exited 0)
        = (\<exists>j < nat (?K - (i + 1)). tool (Suc (runs w) + j) = Exited 0)"
    proof
      assume "\<exists>j < nat (?K - i). tool (runs w + j) = Exited 0"
      then obtain j where j: "j < nat (?K - i)" "tool (runs w + j) = Exited 0" by blast
      with nz have "j \<noteq> 0" by (cases j) auto
      then obtain j' where "j = Suc j'" by (cases j) auto
      with j have "j' < nat (?K - (i + 1))" "tool (Suc (runs w) + j') = Exited 0" by auto
      then show "\<exists>j < nat (?K - (i + 1)). tool (Suc (runs w) + j) = Exited 0" by blast
    next
      assume "\<exists>j < nat (?K - (i + 1)). tool (Suc (runs w) + j) = Exited 0"
      then obtain j where j: "j < nat (?K - (i + 1))" "tool (Suc (runs w) + j) = Exited 0"
        by blast
      then have "Suc j < nat (?K - i)" "tool (runs w + Suc j) = Exited 0" using lt by auto
      then show "\<exists>j < nat (?K - i). tool (runs w + j) = Exited 0" by blast
    qed
    moreover have "retry_loop tool args i w = retry_loop tool args (i + 1) ?w3"
      using again by (simp add: retry_loop_again)
    ultimately show ?thesis using IH again(1) by simp
  qed
qed

section \<open>The upload and the worker's item\<close>

lemma uploadFile_missing:
  "path \<notin> files w \<Longrightarrow> uploadFile tool path w = (Some (FileMissing path), emit (Stat path) w)"
  by (simp add: uploadFile_def os_Stat_IsNotExist_def)

lemma uploadFile_present:
  "path \<in> files w \<Longrightarrow>
     uploadFile tool path w = retry_loop tool (rclone_args w path) 0 (emit (Stat path) w)"
  by (simp add: uploadFile_def os_Stat_IsNotExist_def rclone_args_def emit_def)

lemma uploadFile_shape:
  "\<exists>res tr n. uploadFile tool path w
       = (res, w\<lparr>events := events w @ Stat path # tr, runs := runs w + n\<rparr>)
     \<and> set tr \<subseteq> {Exec (gostr ''rclone'') (rclone_args w path), Log WarnLevel,
                   Sleep (seconds (RetryInterval (Upload (config w))))}"
proof (cases "path \<in> files w")
  case False
  then have "uploadFile tool path w
      = (Some (FileMissing path), w\<lparr>events := events w @ Stat path # [], runs := runs w + 0\<rparr>)"
    by (simp add: uploadFile_missing emit_def)
  then show ?thesis by (metis empty_set empty_subsetI)
next
  case True
  let ?w1 = "emit (Stat path) w"
  from retry_loop_shape [of tool "rclone_args w path" 0 ?w1]
  obtain res tr n where
    r: "retry_loop tool (rclone_args w path) 0 ?w1
          = (res, ?w1\<lparr>events := events ?w1 @ tr, runs := runs ?w1 + n\<rparr>)"
    and tr: "set tr \<subseteq> {Exec (gostr ''rclone'') (rclone_args w path), Log WarnLevel,
                Sleep (seconds (RetryInterval (Upload (config ?w1))))}"
    by blast
  have "uploadFile tool path w
      = (res, w\<lparr>events := events w @ Stat path # tr, runs := runs w + n\<rparr>)"
    using True r by (simp add: uploadFile_present emit_def)
  moreover have "set tr \<subseteq> {Exec (gostr ''rclone'') (rclone_args w path), Log WarnLevel,
                Sleep (seconds (RetryInterval (Upload (config w))))}"
    using tr by (simp add: emit_def)
  ultimately show ?thesis by blast
qed

lemma added_append [simp]:
  "added w (w\<lparr>events := events w @ tr, runs := n\<rparr>) = tr"
  "added w (w\<lparr>events := events w @ tr\<rparr>) = tr"
  "added w (w\<lparr>events := events w @ tr, files := fs\<rparr>) = tr"
  by (simp_all add: added_def)

text \<open>
  C5. \<open>uploadFile\<close> begins with \<open>os.Stat\<close> on the path, whatever follows. When the
  path is absent it returns the error at once: the \<open>Stat\<close> is the only event, the tool
  is not run, nothing sleeps, and the worker only logs the error.
\<close>

theorem uploadFile_missing_file:
  "(\<exists>tr. added w (snd (uploadFile tool path w)) = Stat path # tr)
   \<and> (path \<notin> files w \<longrightarrow>
        uploadFile tool path w = (Some (FileMissing path), emit (Stat path) w)
        \<and> added w (snd (uploadFile tool path w)) = [Stat path]
        \<and> runs (snd (uploadFile tool path w)) = runs w
        \<and> process_item tool path w
            = logf ErrorLevel (emit (Stat path) (logf InfoLevel w)))"
proof -
  from uploadFile_shape [of tool path w] obtain res tr n where
    "uploadFile tool path w = (res, w\<lparr>events := events w @ Stat path # tr, runs := runs w + n\<rparr>)"
    by blast
  then have first: "\<exists>tr. added w (snd (uploadFile tool path w)) = Stat path # tr"
    by simp
  have miss: "uploadFile tool path w = (Some (FileMissing path), emit (Stat path) w)
        \<and> added w (snd (uploadFile tool path w)) = [Stat path]
        \<and> runs (snd (uploadFile tool path w)) = runs w
        \<and> process_item tool path w
            = logf ErrorLevel (emit (Stat path) (logf InfoLevel w))"
    if "path \<notin> files w"
  proof -
    from that have "path \<notin> files (logf InfoLevel w)" by (simp add: logf_def emit_def)
    then have "process_item tool path w = logf ErrorLevel (emit (Stat path) (logf InfoLevel w))"
      by (simp add: process_item_def uploadFile_missing)
    with that show ?thesis
      by (simp add: uploadFile_missing emit_def added_def)
  qed
  from first miss show ?thesis by blast
qed

theorem uploadFile_missing_file_witness:
  "gostr ''/data/photos/gone.heic'' \<notin> files demo_world
   \<and> uploadFile (\<lambda>n. Exited 0) (gostr ''/data/photos/gone.heic'') demo_world
     = (Some (FileMissing (gostr ''/data/photos/gone.heic'')),
        emit (Stat (gostr ''/data/photos/gone.heic'')) demo_world)
   \<and> added demo_world (snd (uploadFile (\<lambda>n. Exited 0) (gostr ''/data/photos/gone.heic'') demo_world))
       = [Stat (gostr ''/data/photos/gone.heic'')]
   \<and> runs (snd (uploadFile (\<lambda>n. Exited 0) (gostr ''/data/photos/gone.heic'') demo_world))
       = runs demo_world"
proof -
  have "gostr ''/data/photos/gone.heic'' \<notin> files demo_world"
    by (simp add: demo_world_def demo_photo_def gostr_def)
  then show ?thesis
    using uploadFile_missing_file
      [of demo_world "\<lambda>n. Exited 0" "gostr ''/data/photos/gone.heic''"]
    by blast
qed

lemma process_item_unfold:
  assumes "uploadFile tool path (logf InfoLevel w) = (res, w2)"
  shows "process_item tool path w =
     (case res of
        Some err \<Rightarrow> logf ErrorLevel w2
      | None \<Rightarrow>
          if DeleteAfterUpload (Rclone (config w2)) then
            (if path \<in> files w2 \<and> path \<notin> undeletable w2
             then logf InfoLevel (emit (Remove path) ((logf InfoLevel w2)\<lparr>files := files w2 - {path}\<rparr>))
             else logf ErrorLevel (emit (Remove path) (logf InfoLevel w2)))
          else logf InfoLevel w2)"
  using assms
  by (cases res) (simp_all add: process_item_def os_Remove_def logf_def emit_def Let_def)

lemma process_item_shape:
  obtains res tr n where
    "uploadFile tool path (logf InfoLevel w)
       = (res, w\<lparr>events := events w @ Log InfoLevel # Stat path # tr, runs := runs w + n\<rparr>)"
    "set tr \<subseteq> {Exec (gostr ''rclone'') (rclone_args w path), Log WarnLevel,
                 Sleep (seconds (RetryInterval (Upload (config w))))}"
proof -
  let ?w1 = "logf InfoLevel w"
  from uploadFile_shape [of tool path ?w1] obtain res tr n where
    u: "uploadFile tool path ?w1
          = (res, ?w1\<lparr>events := events ?w1 @ Stat path # tr, runs := runs ?w1 + n\<rparr>)"
    and tr: "set tr \<subseteq> {Exec (gostr ''rclone'') (rclone_args ?w1 path), Log WarnLevel,
                 Sleep (seconds (RetryInterval (Upload (config ?w1))))}"
    by blast
  have "uploadFile tool path ?w1
       = (res, w\<lparr>events := events w @ Log InfoLevel # Stat path # tr, runs := runs w + n\<rparr>)"
    using u by (simp add: logf_def emit_def)
  moreover have "set tr \<subseteq> {Exec (gostr ''rclone'') (rclone_args w path), Log WarnLevel,
                 Sleep (seconds (RetryInterval (Upload (config w))))}"
    using tr by (simp add: logf_def emit_def rclone_args_def)
  ultimately show thesis by (rule that)
qed

lemma no_Remove_in_upload:
  "set tr \<subseteq> {Exec prog args, Log WarnLevel, Sleep d} \<Longrightarrow> e \<in> set tr \<Longrightarrow> \<not> is_Remove e"
  by (auto simp: is_Remove_def)

text \<open>
  C9. When \<open>uploadFile\<close> returns an error the worker logs it and goes on to the next
  item: it does not reach \<open>os.Remove\<close>, whatever \<open>delete_after_upload\<close> says, and the
  set of existing files is the one it started with.
\<close>

theorem failed_upload_keeps_file:
  assumes "fst (uploadFile tool path (logf InfoLevel w)) = Some err"
  shows "process_item tool path w = logf ErrorLevel (snd (uploadFile tool path (logf InfoLevel w)))
     \<and> files (process_item tool path w) = files w
     \<and> (\<forall>e\<in>set (added w (process_item tool path w)). \<not> is_Remove e)"
proof -
  obtain res tr n where
    u: "uploadFile tool path (logf InfoLevel w)
       = (res, w\<lparr>events := events w @ Log InfoLevel # Stat path # tr, runs := runs w + n\<rparr>)"
    and tr: "set tr \<subseteq> {Exec (gostr ''rclone'') (rclone_args w path), Log WarnLevel,
                 Sleep (seconds (RetryInterval (Upload (config w))))}"
    by (rule process_item_shape)
  from assms u have res: "res = Some err" by simp
  have p: "process_item tool path w
      = w\<lparr>events := events w @ Log InfoLevel # Stat path # tr @ [Log ErrorLevel],
          runs := runs w + n\<rparr>"
    using process_item_unfold [OF u] res by (simp add: logf_def emit_def)
  have 1: "process_item tool path w
      = logf ErrorLevel (snd (uploadFile tool path (logf InfoLevel w)))"
    using process_item_unfold [OF u] res u by simp
  have 2: "files (process_item tool path w) = files w" by (simp add: p)
  have "added w (process_item tool path w) = Log InfoLevel # Stat path # tr @ [Log ErrorLevel]"
    unfolding p by (simp add: added_def)
  then have 3: "\<forall>e\<in>set (added w (process_item tool path w)). \<not> is_Remove e"
    using no_Remove_in_upload [OF tr] by (auto simp: is_Remove_def)
  from 1 2 3 show ?thesis by blast
qed

lemma uploadFile_all_fail:
  assumes "path \<in> files w" "1 \<le> RetryCount (Upload (config w))" "\<forall>n. run_failed (tool n)"
  shows "uploadFile tool path w
     = (Some (UploadFailed (RetryCount (Upload (config w)))),
        w\<lparr>events := events w @ Stat path
               # concat (replicate (nat (RetryCount (Upload (config w)) - 1))
                   [Exec (gostr ''rclone'') (rclone_args w path), Log WarnLevel,
                    Sleep (seconds (RetryInterval (Upload (config w))))])
               @ [Exec (gostr ''rclone'') (rclone_args w path), Log WarnLevel],
          runs := runs w + nat (RetryCount (Upload (config w)))\<rparr>)"
proof -
  let ?w1 = "emit (Stat path) w"
  have cfg: "config ?w1 = config w" by (simp add: emit_def)
  have n: "nat (RetryCount (Upload (config w)) - 1)
      = nat (RetryCount (Upload (config ?w1)) - 1 - 0)"
    by (simp add: cfg)
  have lt: "0 < RetryCount (Upload (config ?w1))" using assms(2) by (simp add: cfg)
  have "uploadFile tool path w = retry_loop tool (rclone_args w path) 0 ?w1"
    using assms(1) by (rule uploadFile_present)
  also note retry_loop_all_fail [OF assms(3) n lt, of "rclone_args w path"]
  finally show ?thesis using assms(2) by (simp add: emit_def nat_diff_distrib Suc_nat_eq_nat_zadd1)
qed

lemma filter_attempts:
  "filter is_Exec (concat (replicate n [Exec p a, Log l, Sleep d])) = replicate n (Exec p a)"
  "filter is_Sleep (concat (replicate n [Exec p a, Log l, Sleep d])) = replicate n (Sleep d)"
  by (induction n) (simp_all add: is_Exec_def is_Sleep_def)

lemma demo_facts:
  "demo_photo \<in> files demo_world"
  "demo_photo \<in> files delete_world"
  "RetryCount (Upload (config demo_world)) = 3"
  "RetryCount (Upload (config delete_world)) = 3"
  "RetryInterval (Upload (config demo_world)) = 5"
  "WaitTime (Upload (config demo_world)) = 30"
  "DeleteAfterUpload (Rclone (config delete_world))"
  "\<not> DeleteAfterUpload (Rclone (config demo_world))"
  "CheckDuplicates (Rclone (config demo_world))"
  "files demo_world = {demo_photo}"
  "files delete_world = {demo_photo}"
  "runs demo_world = 0"
  "events demo_world = []"
  "\<not> ctx_done demo_world"
  by (simp_all add: demo_world_def delete_world_def demo_config_def)

lemma logf_simps:
  "events (logf l w) = events w @ [Log l]"
  "files (logf l w) = files w"
  "runs (logf l w) = runs w"
  "config (logf l w) = config w"
  "uploadChan (logf l w) = uploadChan w"
  "ctx_done (logf l w) = ctx_done w"
  by (simp_all add: logf_def emit_def)

lemma always_failing: "\<forall>n. run_failed ((\<lambda>n. Exited 1) n)"
  by (simp add: run_failed_def)

theorem failed_upload_keeps_file_witness:
  "fst (uploadFile (\<lambda>n. Exited 1) demo_photo (logf InfoLevel delete_world))
      = Some (UploadFailed 3)
   \<and> DeleteAfterUpload (Rclone (config delete_world))
   \<and> files (process_item (\<lambda>n. Exited 1) demo_photo delete_world) = {demo_photo}"
proof -
  have h: "fst (uploadFile (\<lambda>n. Exited 1) demo_photo (logf InfoLevel delete_world))
      = Some (UploadFailed 3)"
    using uploadFile_all_fail [of demo_photo "logf InfoLevel delete_world" "\<lambda>n. Exited 1"]
      always_failing
    by (simp add: logf_simps demo_facts)
  from failed_upload_keeps_file [OF h]
  have "files (process_item (\<lambda>n. Exited 1) demo_photo delete_world) = files delete_world"
    by blast
  with h show ?thesis by (simp add: demo_facts)
qed

lemma process_item_all_fail:
  assumes "path \<in> files w" "1 \<le> RetryCount (Upload (config w))" "\<forall>n. run_failed (tool n)"
  shows "process_item tool path w
     = w\<lparr>events := events w @ Log InfoLevel # Stat path
               # concat (replicate (nat (RetryCount (Upload (config w)) - 1))
                   [Exec (gostr ''rclone'') (rclone_args w path), Log WarnLevel,
                    Sleep (seconds (RetryInterval (Upload (config w))))])
               @ [Exec (gostr ''rclone'') (rclone_args w path), Log WarnLevel, Log ErrorLevel],
          runs := runs w + nat (RetryCount (Upload (config w)))\<rparr>"
proof -
  let ?w1 = "logf InfoLevel w"
  have a: "path \<in> files ?w1" "1 \<le> RetryCount (Upload (config ?w1))"
    using assms(1,2) by (simp_all add: logf_simps)
  have args: "rclone_args ?w1 path = rclone_args w path"
    by (simp add: rclone_args_def logf_simps)
  note u = uploadFile_all_fail [OF a assms(3), unfolded args logf_simps]
  show ?thesis
    using process_item_unfold [OF u]
    by (simp add: logf_def emit_def)
qed

text \<open>
  C2. Let the path exist when the worker checks it, let the retry count \<open>K\<close>
  be at least one, and let every run of the tool fail. Then \<open>uploadFile\<close> runs the tool
  \<open>K\<close> times, each of the first \<open>K - 1\<close> failures followed by a warning and a sleep of
  the retry interval, the last by a warning only, and returns the error. The worker logs
  the error and changes nothing else: the path is not sent to the channel again and the
  file stays.
\<close>

theorem uploadFile_always_failing:
  assumes "path \<in> files w" "1 \<le> RetryCount (Upload (config w))" "\<forall>n. run_failed (tool n)"
  shows "uploadFile tool path w
     = (Some (UploadFailed (RetryCount (Upload (config w)))),
        w\<lparr>events := events w @ Stat path
               # concat (replicate (nat (RetryCount (Upload (config w)) - 1))
                   [Exec (gostr ''rclone'') (rclone_args w path), Log WarnLevel,
                    Sleep (seconds (RetryInterval (Upload (config w))))])
               @ [Exec (gostr ''rclone'') (rclone_args w path), Log WarnLevel],
          runs := runs w + nat (RetryCount (Upload (config w)))\<rparr>)
   \<and> length (filter is_Exec (added w (snd (uploadFile tool path w))))
       = nat (RetryCount (Upload (config w)))
   \<and> length (filter is_Sleep (added w (snd (uploadFile tool path w))))
       = nat (RetryCount (Upload (config w))) - 1
   \<and> process_item tool path w
     = w\<lparr>events := events w @ Log InfoLevel # Stat path
               # concat (replicate (nat (RetryCount (Upload (config w)) - 1))
                   [Exec (gostr ''rclone'') (rclone_args w path), Log WarnLevel,
                    Sleep (seconds (RetryInterval (Upload (config w))))])
               @ [Exec (gostr ''rclone'') (rclone_args w path), Log WarnLevel, Log ErrorLevel],
          runs := runs w + nat (RetryCount (Upload (config w)))\<rparr>
   \<and> (buf (uploadChan w) = path # rest \<and> \<not> ctx_done w \<longrightarrow>
        (\<exists>w'. worker_iter tool pick w = (Next, w')
           \<and> buf (uploadChan w') = rest \<and> files w' = files w))"
proof -
  note u = uploadFile_all_fail [OF assms]
  have ex: "length (filter is_Exec (added w (snd (uploadFile tool path w))))
       = nat (RetryCount (Upload (config w)))"
    unfolding u using assms(2)
    by (simp add: filter_attempts is_Exec_def nat_diff_distrib)
  have sl: "length (filter is_Sleep (added w (snd (uploadFile tool path w))))
       = nat (RetryCount (Upload (config w))) - 1"
    unfolding u using assms(2)
    by (simp add: filter_attempts is_Sleep_def nat_diff_distrib)
  note p = process_item_all_fail [OF assms]
  have it: "\<exists>w'. worker_iter tool pick w = (Next, w')
           \<and> buf (uploadChan w') = rest \<and> files w' = files w"
    if b: "buf (uploadChan w) = path # rest" and nd: "\<not> ctx_done w"
  proof -
    let ?w0 = "emit (Recv path) (w\<lparr>uploadChan := (uploadChan w)\<lparr>buf := rest\<rparr>\<rparr>)"
    have a0: "path \<in> files ?w0" "1 \<le> RetryCount (Upload (config ?w0))"
      using assms(1,2) by (simp_all add: emit_def)
    have wi: "worker_iter tool pick w = (Next, process_item tool path ?w0)"
      using b nd by (simp add: worker_iter_def select2_def recv_ready_def)
    have "buf (uploadChan (process_item tool path ?w0)) = rest"
      "files (process_item tool path ?w0) = files w"
      unfolding process_item_all_fail [OF a0 assms(3)] by (simp_all add: emit_def)
    with wi show ?thesis by blast
  qed
  from u ex sl p it show ?thesis by blast
qed

lemma more_demo_facts:
  "demo_photo \<in> files zero_retry_world"
  "RetryCount (Upload (config zero_retry_world)) = 0"
  "DeleteAfterUpload (Rclone (config zero_retry_world))"
  "files zero_retry_world = {demo_photo}"
  "gone_photo \<notin> files demo_world"
  "demo_photo \<in> files queued_world"
  "files queued_world = {demo_photo}"
  "RetryCount (Upload (config queued_world)) = 3"
  "buf (uploadChan queued_world) = [demo_photo]"
  "\<not> ctx_done queued_world"
  by (simp_all add: zero_retry_world_def queued_world_def demo_world_def delete_world_def
      demo_config_def gone_photo_def demo_photo_def gostr_def make_chan_def)

theorem uploadFile_always_failing_witness:
  "demo_photo \<in> files queued_world
   \<and> fst (uploadFile (\<lambda>n. Exited 1) demo_photo queued_world) = Some (UploadFailed 3)
   \<and> length (filter is_Exec (added queued_world
         (snd (uploadFile (\<lambda>n. Exited 1) demo_photo queued_world)))) = 3
   \<and> length (filter is_Sleep (added queued_world
         (snd (uploadFile (\<lambda>n. Exited 1) demo_photo queued_world)))) = 2
   \<and> (\<exists>w'. worker_iter (\<lambda>n. Exited 1) True queued_world = (Next, w')
         \<and> buf (uploadChan w') = [] \<and> files w' = {demo_photo})"
proof -
  have k: "1 \<le> RetryCount (Upload (config queued_world))" by (simp add: more_demo_facts)
  note T = uploadFile_always_failing
    [OF more_demo_facts(6) k always_failing, of "[]" True]
  have 1: "fst (uploadFile (\<lambda>n. Exited 1) demo_photo queued_world)
      = Some (UploadFailed 3)"
    using T [THEN conjunct1] by (simp add: more_demo_facts)
  have 2: "length (filter is_Exec (added queued_world
         (snd (uploadFile (\<lambda>n. Exited 1) demo_photo queued_world)))) = 3"
    using T [THEN conjunct2, THEN conjunct1] by (simp only: more_demo_facts)
  have 3: "length (filter is_Sleep (added queued_world
         (snd (uploadFile (\<lambda>n. Exited 1) demo_photo queued_world)))) = 2"
    using T [THEN conjunct2, THEN conjunct2, THEN conjunct1]
    by (simp only: more_demo_facts)
  have 4: "\<exists>w'. worker_iter (\<lambda>n. Exited 1) True queued_world = (Next, w')
         \<and> buf (uploadChan w') = [] \<and> files w' = {demo_photo}"
    using T [THEN conjunct2, THEN conjunct2, THEN conjunct2, THEN conjunct2]
      more_demo_facts(7,9,10)
    by simp
  from more_demo_facts(6) 1 2 3 4 show ?thesis by blast
qed

theorem uploadFile_always_failing_counterexample:
  "demo_photo \<in> files zero_retry_world
   \<and> RetryCount (Upload (config zero_retry_world)) = 0
   \<and> fst (uploadFile (\<lambda>n. Exited 1) demo_photo zero_retry_world) = None
   \<and> gone_photo \<notin> files demo_world
   \<and> RetryCount (Upload (config demo_world)) = 3
   \<and> filter is_Exec (added demo_world (snd (uploadFile (\<lambda>n. Exited 1) gone_photo demo_world)))
       = []"
proof -
  have "uploadFile (\<lambda>n. Exited 1) demo_photo zero_retry_world
      = (None, emit (Stat demo_photo) zero_retry_world)"
    by (simp add: uploadFile_present more_demo_facts retry_loop_done emit_simps)
  then have 1: "fst (uploadFile (\<lambda>n. Exited 1) demo_photo zero_retry_world) = None"
    by simp
  have "uploadFile (\<lambda>n. Exited 1) gone_photo demo_world
      = (Some (FileMissing gone_photo), emit (Stat gone_photo) demo_world)"
    by (simp add: uploadFile_missing more_demo_facts)
  then have 2: "filter is_Exec
      (added demo_world (snd (uploadFile (\<lambda>n. Exited 1) gone_photo demo_world))) = []"
    by (simp add: added_def emit_def is_Exec_def)
  from 1 2 more_demo_facts(1,2,5) demo_facts(3) show ?thesis by blast
qed

lemma uploadFile_zero:
  assumes "path \<in> files w" "RetryCount (Upload (config w)) \<le> 0"
  shows "uploadFile tool path w = (None, emit (Stat path) w)"
  using assms by (simp add: uploadFile_present retry_loop_done emit_simps)

lemma locked_facts:
  "demo_photo \<in> files locked_world"
  "demo_photo \<in> undeletable locked_world"
  "DeleteAfterUpload (Rclone (config locked_world))"
  "RetryCount (Upload (config locked_world)) = 3"
  "demo_photo \<in> files zero_retry_locked_world"
  "demo_photo \<in> undeletable zero_retry_locked_world"
  "DeleteAfterUpload (Rclone (config zero_retry_locked_world))"
  "RetryCount (Upload (config zero_retry_locked_world)) = 0"
  "demo_photo \<notin> undeletable zero_retry_world"
  "demo_photo \<notin> undeletable delete_world"
  "demo_photo \<notin> undeletable demo_world"
  by (simp_all add: locked_world_def zero_retry_locked_world_def zero_retry_world_def
      delete_world_def demo_world_def demo_config_def)

text \<open>
  C8. With a retry count of zero or less the loop body never runs: for an existing path
  \<open>uploadFile\<close> returns nil after the \<open>os.Stat\<close> alone, without a run of the tool. The
  worker takes that for a finished upload, and with \<open>delete_after_upload\<close> it calls
  \<open>os.Remove\<close> on the file: the file is gone when the removal succeeds; when the
  operating system refuses, the failure is logged and the file stays.
\<close>

theorem uploadFile_zero_retries:
  assumes "path \<in> files w" "RetryCount (Upload (config w)) \<le> 0"
  shows "uploadFile tool path w = (None, emit (Stat path) w)
   \<and> filter is_Exec (added w (snd (uploadFile tool path w))) = []
   \<and> runs (snd (uploadFile tool path w)) = runs w
   \<and> (DeleteAfterUpload (Rclone (config w)) \<longrightarrow>
        filter is_Remove (added w (process_item tool path w)) = [Remove path]
        \<and> (path \<notin> undeletable w \<longrightarrow>
             path \<notin> files (process_item tool path w)
             \<and> process_item tool path w
                 = w\<lparr>files := files w - {path},
                     events := events w
                       @ [Log InfoLevel, Stat path, Log InfoLevel, Remove path, Log InfoLevel]\<rparr>)
        \<and> (path \<in> undeletable w \<longrightarrow>
             path \<in> files (process_item tool path w)
             \<and> process_item tool path w
                 = w\<lparr>events := events w
                       @ [Log InfoLevel, Stat path, Log InfoLevel, Remove path, Log ErrorLevel]\<rparr>))"
proof -
  note u = uploadFile_zero [OF assms, of tool]
  have 2: "filter is_Exec (added w (snd (uploadFile tool path w))) = []"
    unfolding u by (simp add: added_def emit_def is_Exec_def)
  have 3: "runs (snd (uploadFile tool path w)) = runs w"
    unfolding u by (simp add: emit_def)
  let ?w1 = "logf InfoLevel w"
  have a: "path \<in> files ?w1" "RetryCount (Upload (config ?w1)) \<le> 0"
    using assms by (simp_all add: logf_simps)
  note u1 = uploadFile_zero [OF a, of tool]
  have ok: "process_item tool path w
      = w\<lparr>files := files w - {path},
          events := events w
            @ [Log InfoLevel, Stat path, Log InfoLevel, Remove path, Log InfoLevel]\<rparr>"
    if "DeleteAfterUpload (Rclone (config w))" "path \<notin> undeletable w"
    using process_item_unfold [OF u1] that assms(1) by (simp add: logf_def emit_def)
  have refused: "process_item tool path w
      = w\<lparr>events := events w
            @ [Log InfoLevel, Stat path, Log InfoLevel, Remove path, Log ErrorLevel]\<rparr>"
    if "DeleteAfterUpload (Rclone (config w))" "path \<in> undeletable w"
    using process_item_unfold [OF u1] that by (simp add: logf_def emit_def)
  have 4: "filter is_Remove (added w (process_item tool path w)) = [Remove path]
        \<and> (path \<notin> undeletable w \<longrightarrow>
             path \<notin> files (process_item tool path w)
             \<and> process_item tool path w
                 = w\<lparr>files := files w - {path},
                     events := events w
                       @ [Log InfoLevel, Stat path, Log InfoLevel, Remove path, Log InfoLevel]\<rparr>)
        \<and> (path \<in> undeletable w \<longrightarrow>
             path \<in> files (process_item tool path w)
             \<and> process_item tool path w
                 = w\<lparr>events := events w
                       @ [Log InfoLevel, Stat path, Log InfoLevel, Remove path, Log ErrorLevel]\<rparr>)"
    if d: "DeleteAfterUpload (Rclone (config w))"
  proof (cases "path \<in> undeletable w")
    case False
    note p = ok [OF d False]
    have "filter is_Remove (added w (process_item tool path w)) = [Remove path]"
      unfolding p by (simp add: added_def is_Remove_def)
    moreover have "path \<notin> files (process_item tool path w)"
      unfolding p by simp
    ultimately show ?thesis using p False by blast
  next
    case True
    note p = refused [OF d True]
    have "filter is_Remove (added w (process_item tool path w)) = [Remove path]"
      unfolding p by (simp add: added_def is_Remove_def)
    moreover have "path \<in> files (process_item tool path w)"
      unfolding p using assms(1) by simp
    ultimately show ?thesis using p True by blast
  qed
  from u 2 3 4 show ?thesis by blast
qed

theorem uploadFile_zero_retries_witness:
  "demo_photo \<in> files zero_retry_world
   \<and> RetryCount (Upload (config zero_retry_world)) = 0
   \<and> DeleteAfterUpload (Rclone (config zero_retry_world))
   \<and> fst (uploadFile (\<lambda>n. Exited 1) demo_photo zero_retry_world) = None
   \<and> runs (snd (uploadFile (\<lambda>n. Exited 1) demo_photo zero_retry_world)) = runs zero_retry_world
   \<and> demo_photo \<notin> undeletable zero_retry_world
   \<and> demo_photo \<notin> files (process_item (\<lambda>n. Exited 1) demo_photo zero_retry_world)
   \<and> demo_photo \<in> undeletable zero_retry_locked_world
   \<and> demo_photo \<in> files (process_item (\<lambda>n. Exited 1) demo_photo zero_retry_locked_world)"
proof -
  have k: "RetryCount (Upload (config zero_retry_world)) \<le> 0"
    by (simp add: more_demo_facts)
  have k': "RetryCount (Upload (config zero_retry_locked_world)) \<le> 0"
    by (simp add: locked_facts)
  note T = uploadFile_zero_retries [OF more_demo_facts(1) k, of "\<lambda>n. Exited 1"]
  note U = uploadFile_zero_retries [OF locked_facts(5) k', of "\<lambda>n. Exited 1"]
  have 1: "fst (uploadFile (\<lambda>n. Exited 1) demo_photo zero_retry_world) = None"
    using T [THEN conjunct1] by simp
  note 2 = T [THEN conjunct2, THEN conjunct2, THEN conjunct1]
  have 3: "demo_photo \<notin> files (process_item (\<lambda>n. Exited 1) demo_photo zero_retry_world)"
    using T [THEN conjunct2, THEN conjunct2, THEN conjunct2] more_demo_facts(3)
      locked_facts(9)
    by blast
  have 4: "demo_photo \<in> files (process_item (\<lambda>n. Exited 1) demo_photo zero_retry_locked_world)"
    using U [THEN conjunct2, THEN conjunct2, THEN conjunct2] locked_facts(6,7)
    by blast
  from more_demo_facts(1,2,3) locked_facts(6,9) 1 2 3 4 show ?thesis by blast
qed

theorem uploadFile_zero_retries_counterexample:
  "demo_photo \<in> files zero_retry_locked_world
   \<and> RetryCount (Upload (config zero_retry_locked_world)) = 0
   \<and> DeleteAfterUpload (Rclone (config zero_retry_locked_world))
   \<and> fst (uploadFile (\<lambda>n. Exited 0) demo_photo (logf InfoLevel zero_retry_locked_world)) = None
   \<and> demo_photo \<in> files (process_item (\<lambda>n. Exited 0) demo_photo zero_retry_locked_world)"
proof -
  let ?w1 = "logf InfoLevel zero_retry_locked_world"
  have a: "demo_photo \<in> files ?w1" "RetryCount (Upload (config ?w1)) \<le> 0"
    by (simp_all add: logf_simps locked_facts)
  note u = uploadFile_zero [OF a, of "\<lambda>n. Exited 0"]
  have 1: "fst (uploadFile (\<lambda>n. Exited 0) demo_photo ?w1) = None"
    unfolding u by simp
  have "files (process_item (\<lambda>n. Exited 0) demo_photo zero_retry_locked_world)
      = files zero_retry_locked_world"
    unfolding process_item_unfold [OF u]
    by (simp add: logf_def emit_def locked_facts)
  then have 2: "demo_photo \<in> files
      (process_item (\<lambda>n. Exited 0) demo_photo zero_retry_locked_world)"
    by (simp add: locked_facts)
  from locked_facts(5,7,8) 1 2 show ?thesis by blast
qed

lemma uploadFile_first_ok:
  assumes "path \<in> files w" "1 \<le> RetryCount (Upload (config w))" "tool (runs w) = Exited 0"
  shows "uploadFile tool path w
     = (None, w\<lparr>events := events w @ [Stat path, Exec (gostr ''rclone'') (rclone_args w path)],
                runs := Suc (runs w)\<rparr>)"
proof -
  let ?w1 = "emit (Stat path) w"
  have "0 < RetryCount (Upload (config ?w1))" "\<not> run_failed (tool (runs ?w1))"
    using assms(2,3) by (simp_all add: emit_simps run_failed_def)
  then have "retry_loop tool (rclone_args w path) 0 ?w1
      = (None, emit (Exec (gostr ''rclone'') (rclone_args w path)) (?w1\<lparr>runs := Suc (runs ?w1)\<rparr>))"
    by (rule retry_loop_ok)
  then show ?thesis using assms(1) by (simp add: uploadFile_present emit_def)
qed

text \<open>
  C4. After \<open>uploadFile\<close> has returned nil, the worker calls \<open>os.Remove\<close> on the path
  exactly when \<open>delete_after_upload\<close> is set. When the removal succeeds the path is no
  longer among the existing files and no other file has changed; when the operating
  system refuses, the failure is logged and the files are what they were. Without
  \<open>delete_after_upload\<close> no \<open>os.Remove\<close> happens and the set of files is what it was.
\<close>

theorem delete_after_successful_upload:
  assumes "fst (uploadFile tool path (logf InfoLevel w)) = None"
  shows "(DeleteAfterUpload (Rclone (config w)) \<longrightarrow>
            filter is_Remove (added w (process_item tool path w)) = [Remove path]
            \<and> (path \<notin> undeletable w \<longrightarrow>
                 path \<notin> files (process_item tool path w)
                 \<and> files (process_item tool path w) = files w - {path})
            \<and> (path \<in> undeletable w \<longrightarrow>
                 files (process_item tool path w) = files w
                 \<and> last (added w (process_item tool path w)) = Log ErrorLevel))
       \<and> (\<not> DeleteAfterUpload (Rclone (config w)) \<longrightarrow>
            files (process_item tool path w) = files w
            \<and> filter is_Remove (added w (process_item tool path w)) = [])"
proof -
  obtain res tr n where
    u: "uploadFile tool path (logf InfoLevel w)
       = (res, w\<lparr>events := events w @ Log InfoLevel # Stat path # tr, runs := runs w + n\<rparr>)"
    and tr: "set tr \<subseteq> {Exec (gostr ''rclone'') (rclone_args w path), Log WarnLevel,
                 Sleep (seconds (RetryInterval (Upload (config w))))}"
    by (rule process_item_shape)
  from assms u have res: "res = None" by simp
  have "\<forall>e\<in>set tr. \<not> is_Remove e"
    using no_Remove_in_upload [OF tr] by blast
  then have ftr: "filter is_Remove tr = []" by (simp add: filter_empty_conv)
  note p = process_item_unfold [OF u, unfolded res]
  have del: "filter is_Remove (added w (process_item tool path w)) = [Remove path]
            \<and> (path \<notin> undeletable w \<longrightarrow>
                 path \<notin> files (process_item tool path w)
                 \<and> files (process_item tool path w) = files w - {path})
            \<and> (path \<in> undeletable w \<longrightarrow>
                 files (process_item tool path w) = files w
                 \<and> last (added w (process_item tool path w)) = Log ErrorLevel)"
    if d: "DeleteAfterUpload (Rclone (config w))"
  proof (cases "path \<in> files w \<and> path \<notin> undeletable w")
    case True
    with p d have "process_item tool path w
        = w\<lparr>files := files w - {path},
            events := events w @ Log InfoLevel # Stat path # tr
                        @ [Log InfoLevel, Remove path, Log InfoLevel],
            runs := runs w + n\<rparr>"
      by (simp add: logf_def emit_def)
    then show ?thesis using True by (simp add: added_def ftr is_Remove_def)
  next
    case False
    with p d have "process_item tool path w
        = w\<lparr>events := events w @ Log InfoLevel # Stat path # tr
                        @ [Log InfoLevel, Remove path, Log ErrorLevel],
            runs := runs w + n\<rparr>"
      by (simp add: logf_def emit_def)
    then show ?thesis using False by (auto simp: added_def ftr is_Remove_def)
  qed
  have keep: "files (process_item tool path w) = files w
            \<and> filter is_Remove (added w (process_item tool path w)) = []"
    if d: "\<not> DeleteAfterUpload (Rclone (config w))"
  proof -
    from p d have "process_item tool path w
        = w\<lparr>events := events w @ Log InfoLevel # Stat path # tr @ [Log InfoLevel],
            runs := runs w + n\<rparr>"
      by (simp add: logf_def emit_def)
    then show ?thesis by (simp add: added_def ftr is_Remove_def)
  qed
  from del keep show ?thesis by blast
qed

lemma demo_upload_ok:
  assumes "demo_photo \<in> files w" "1 \<le> RetryCount (Upload (config w))"
  shows "fst (uploadFile (\<lambda>n. Exited 0) demo_photo (logf InfoLevel w)) = None"
  using uploadFile_first_ok [of demo_photo "logf InfoLevel w" "\<lambda>n. Exited 0"] assms
  by (simp add: logf_simps)

theorem delete_after_successful_upload_witness:
  "fst (uploadFile (\<lambda>n. Exited 0) demo_photo (logf InfoLevel delete_world)) = None
   \<and> DeleteAfterUpload (Rclone (config delete_world))
   \<and> demo_photo \<in> files delete_world
   \<and> demo_photo \<notin> undeletable delete_world
   \<and> demo_photo \<notin> files (process_item (\<lambda>n. Exited 0) demo_photo delete_world)
   \<and> fst (uploadFile (\<lambda>n. Exited 0) demo_photo (logf InfoLevel locked_world)) = None
   \<and> DeleteAfterUpload (Rclone (config locked_world))
   \<and> demo_photo \<in> undeletable locked_world
   \<and> files (process_item (\<lambda>n. Exited 0) demo_photo locked_world) = files locked_world
   \<and> fst (uploadFile (\<lambda>n. Exited 0) demo_photo (logf InfoLevel demo_world)) = None
   \<and> \<not> DeleteAfterUpload (Rclone (config demo_world))
   \<and> files (process_item (\<lambda>n. Exited 0) demo_photo demo_world) = files demo_world"
proof -
  have h1: "fst (uploadFile (\<lambda>n. Exited 0) demo_photo (logf InfoLevel delete_world)) = None"
    by (rule demo_upload_ok) (simp_all add: demo_facts)
  have h2: "fst (uploadFile (\<lambda>n. Exited 0) demo_photo (logf InfoLevel demo_world)) = None"
    by (rule demo_upload_ok) (simp_all add: demo_facts)
  have h3: "fst (uploadFile (\<lambda>n. Exited 0) demo_photo (logf InfoLevel locked_world)) = None"
    by (rule demo_upload_ok) (simp_all add: locked_facts)
  have 1: "demo_photo \<notin> files (process_item (\<lambda>n. Exited 0) demo_photo delete_world)"
    using delete_after_successful_upload [OF h1] demo_facts(7) locked_facts(10) by blast
  have 2: "files (process_item (\<lambda>n. Exited 0) demo_photo demo_world) = files demo_world"
    using delete_after_successful_upload [OF h2] demo_facts(8) by blast
  have 3: "files (process_item (\<lambda>n. Exited 0) demo_photo locked_world) = files locked_world"
    using delete_after_successful_upload [OF h3] locked_facts(2,3) by blast
  from h1 h2 h3 1 2 3 demo_facts(2,7,8) locked_facts(2,3,10) show ?thesis by blast
qed

theorem delete_after_successful_upload_counterexample:
  "fst (uploadFile (\<lambda>n. Exited 0) demo_photo (logf InfoLevel locked_world)) = None
   \<and> DeleteAfterUpload (Rclone (config locked_world))
   \<and> demo_photo \<in> files (process_item (\<lambda>n. Exited 0) demo_photo locked_world)"
proof -
  let ?w1 = "logf InfoLevel locked_world"
  have a: "demo_photo \<in> files ?w1" "1 \<le> RetryCount (Upload (config ?w1))"
    "(\<lambda>n. Exited 0) (runs ?w1) = Exited 0"
    by (simp_all add: logf_simps locked_facts)
  note u = uploadFile_first_ok [OF a]
  have 1: "fst (uploadFile (\<lambda>n. Exited 0) demo_photo ?w1) = None"
    unfolding u by simp
  have "files (process_item (\<lambda>n. Exited 0) demo_photo locked_world) = files locked_world"
    unfolding process_item_unfold [OF u]
    by (simp add: logf_def emit_def locked_facts)
  then have 2: "demo_photo \<in> files (process_item (\<lambda>n. Exited 0) demo_photo locked_world)"
    by (simp add: locked_facts)
  from 1 2 locked_facts(3) show ?thesis by blast
qed

lemma retry_loop_first:
  assumes "i < RetryCount (Upload (config w))"
  shows "\<exists>res tr n. retry_loop tool args i w
       = (res, w\<lparr>events := events w @ Exec (gostr ''rclone'') args # tr, runs := runs w + n\<rparr>)"
proof -
  let ?K = "RetryCount (Upload (config w))"
  let ?w1 = "emit (Exec (gostr ''rclone'') args) (w\<lparr>runs := Suc (runs w)\<rparr>)"
  let ?w3 = "time_Sleep (seconds (RetryInterval (Upload (config w)))) (logf WarnLevel ?w1)"
  consider (ok) "\<not> run_failed (tool (runs w))"
    | (final) "run_failed (tool (runs w))" "\<not> i < ?K - 1"
    | (again) "i < ?K - 1" "run_failed (tool (runs w))"
    by linarith
  then show ?thesis
  proof cases
    case ok
    with assms have "retry_loop tool args i w
        = (None, w\<lparr>events := events w @ Exec (gostr ''rclone'') args # [], runs := runs w + 1\<rparr>)"
      by (simp add: retry_loop_ok emit_def)
    then show ?thesis by blast
  next
    case final
    with assms have "retry_loop tool args i w
        = (Some (UploadFailed ?K),
           w\<lparr>events := events w @ Exec (gostr ''rclone'') args # [Log WarnLevel],
             runs := runs w + 1\<rparr>)"
      by (simp add: retry_loop_last emit_def logf_def)
    then show ?thesis by blast
  next
    case again
    from retry_loop_shape [of tool args "i + 1" ?w3] obtain res tr n where
      r: "retry_loop tool args (i + 1) ?w3
            = (res, ?w3\<lparr>events := events ?w3 @ tr, runs := runs ?w3 + n\<rparr>)"
      by blast
    have "retry_loop tool args i w
        = (res, w\<lparr>events := events w @ Exec (gostr ''rclone'') args
                    # ([Log WarnLevel, Sleep (seconds (RetryInterval (Upload (config w))))] @ tr),
                  runs := runs w + Suc n\<rparr>)"
      using again r by (simp add: retry_loop_again emit_def logf_def time_Sleep_def)
    then show ?thesis by blast
  qed
qed

lemma process_item_events:
  "\<exists>tr fin. added w (process_item tool path w) = Log InfoLevel # Stat path # tr @ fin
     \<and> set tr \<subseteq> {Exec (gostr ''rclone'') (rclone_args w path), Log WarnLevel,
                   Sleep (seconds (RetryInterval (Upload (config w))))}
     \<and> set fin \<subseteq> {Log InfoLevel, Log ErrorLevel, Remove path}"
proof -
  obtain res tr n where
    u: "uploadFile tool path (logf InfoLevel w)
       = (res, w\<lparr>events := events w @ Log InfoLevel # Stat path # tr, runs := runs w + n\<rparr>)"
    and tr: "set tr \<subseteq> {Exec (gostr ''rclone'') (rclone_args w path), Log WarnLevel,
                 Sleep (seconds (RetryInterval (Upload (config w))))}"
    by (rule process_item_shape)
  note p = process_item_unfold [OF u]
  have "\<exists>fin. added w (process_item tool path w) = Log InfoLevel # Stat path # tr @ fin
      \<and> set fin \<subseteq> {Log InfoLevel, Log ErrorLevel, Remove path}"
  proof (cases res)
    case (Some err)
    with p have "added w (process_item tool path w)
        = Log InfoLevel # Stat path # tr @ [Log ErrorLevel]"
      by (simp add: logf_def emit_def added_def)
    then show ?thesis by simp
  next
    case None
    consider (keep) "\<not> DeleteAfterUpload (Rclone (config w))"
      | (del) "DeleteAfterUpload (Rclone (config w))"
          "path \<in> files w \<and> path \<notin> undeletable w"
      | (nodel) "DeleteAfterUpload (Rclone (config w))"
          "\<not> (path \<in> files w \<and> path \<notin> undeletable w)"
      by blast
    then show ?thesis
    proof cases
      case keep
      with p None have "added w (process_item tool path w)
          = Log InfoLevel # Stat path # tr @ [Log InfoLevel]"
        by (simp add: logf_def emit_def added_def)
      then show ?thesis by simp
    next
      case del
      with p None have "added w (process_item tool path w)
          = Log InfoLevel # Stat path # tr @ [Log InfoLevel, Remove path, Log InfoLevel]"
        by (simp add: logf_def emit_def added_def)
      then show ?thesis by simp
    next
      case nodel
      with p None have "added w (process_item tool path w)
          = Log InfoLevel # Stat path # tr @ [Log InfoLevel, Remove path, Log ErrorLevel]"
        by (simp add: logf_def emit_def added_def)
      then show ?thesis by simp
    qed
  qed
  with tr show ?thesis by blast
qed

text \<open>
  C3. The argument list is \<open>copy\<close>, the local path and \<open>remote:album\<close>, followed by
  \<open>--checksum\<close> exactly when \<open>check_duplicates\<close> is set. Every run the worker starts
  for a path is \<open>rclone\<close> with that list; for an existing path and a retry count of at
  least one the first run follows the \<open>os.Stat\<close> directly. A run counts as a success
  exactly when it ends with exit status zero: the upload returns nil when the first run
  does, and in general exactly when one of the runs the retry count allows does.
\<close>

theorem rclone_invocation:
  "rclone_args w path
     = [gostr ''copy'', path, RemoteName (Rclone (config w)) @ [colon] @ AlbumName (Rclone (config w))]
       @ (if CheckDuplicates (Rclone (config w)) then [gostr ''--checksum''] else [])
   \<and> (\<forall>e\<in>set (added w (process_item tool path w)).
        is_Exec e \<longrightarrow> e = Exec (gostr ''rclone'') (rclone_args w path))
   \<and> (path \<in> files w \<and> 1 \<le> RetryCount (Upload (config w)) \<longrightarrow>
        (\<exists>tr. added w (snd (uploadFile tool path w))
           = Stat path # Exec (gostr ''rclone'') (rclone_args w path) # tr))
   \<and> (path \<in> files w \<and> 1 \<le> RetryCount (Upload (config w)) \<and> tool (runs w) = Exited 0 \<longrightarrow>
        uploadFile tool path w
          = (None, w\<lparr>events := events w @ [Stat path, Exec (gostr ''rclone'') (rclone_args w path)],
                     runs := Suc (runs w)\<rparr>))
   \<and> (path \<in> files w \<and> 1 \<le> RetryCount (Upload (config w)) \<longrightarrow>
        (fst (uploadFile tool path w) = None)
          = (\<exists>j < nat (RetryCount (Upload (config w))). tool (runs w + j) = Exited 0))"
proof -
  have 1: "rclone_args w path
     = [gostr ''copy'', path, RemoteName (Rclone (config w)) @ [colon] @ AlbumName (Rclone (config w))]
       @ (if CheckDuplicates (Rclone (config w)) then [gostr ''--checksum''] else [])"
    by (simp add: rclone_args_def Let_def)
  have 2: "\<forall>e\<in>set (added w (process_item tool path w)).
        is_Exec e \<longrightarrow> e = Exec (gostr ''rclone'') (rclone_args w path)"
  proof -
    from process_item_events [of w tool path] obtain tr fin where
      a: "added w (process_item tool path w) = Log InfoLevel # Stat path # tr @ fin"
      and tr: "set tr \<subseteq> {Exec (gostr ''rclone'') (rclone_args w path), Log WarnLevel,
                   Sleep (seconds (RetryInterval (Upload (config w))))}"
      and fin: "set fin \<subseteq> {Log InfoLevel, Log ErrorLevel, Remove path}"
      by blast
    show ?thesis unfolding a using tr fin by (auto simp: is_Exec_def)
  qed
  have 3: "\<exists>tr. added w (snd (uploadFile tool path w))
           = Stat path # Exec (gostr ''rclone'') (rclone_args w path) # tr"
    if "path \<in> files w" "1 \<le> RetryCount (Upload (config w))"
  proof -
    let ?w1 = "emit (Stat path) w"
    have "0 < RetryCount (Upload (config ?w1))" using that(2) by (simp add: emit_simps)
    from retry_loop_first [OF this, of tool "rclone_args w path"] obtain res tr n where
      "retry_loop tool (rclone_args w path) 0 ?w1
        = (res, ?w1\<lparr>events := events ?w1 @ Exec (gostr ''rclone'') (rclone_args w path) # tr,
                    runs := runs ?w1 + n\<rparr>)"
      by blast
    then have "added w (snd (uploadFile tool path w))
        = Stat path # Exec (gostr ''rclone'') (rclone_args w path) # tr"
      using that(1) by (simp add: uploadFile_present emit_def added_def)
    then show ?thesis by blast
  qed
  have 4: "uploadFile tool path w
          = (None, w\<lparr>events := events w @ [Stat path, Exec (gostr ''rclone'') (rclone_args w path)],
                     runs := Suc (runs w)\<rparr>)"
    if "path \<in> files w" "1 \<le> RetryCount (Upload (config w))" "tool (runs w) = Exited 0"
    using that by (rule uploadFile_first_ok)
  have 5: "(fst (uploadFile tool path w) = None)
          = (\<exists>j < nat (RetryCount (Upload (config w))). tool (runs w + j) = Exited 0)"
    if "path \<in> files w" "1 \<le> RetryCount (Upload (config w))"
    using that retry_loop_success_iff [of tool "rclone_args w path" 0 "emit (Stat path) w"]
    by (simp add: uploadFile_present emit_simps)
  from 1 2 3 4 5 show ?thesis by blast
qed

theorem rclone_invocation_witness:
  "rclone_args demo_world demo_photo
     = [gostr ''copy'', demo_photo, gostr ''google-photos:Uploaded Photos'', gostr ''--checksum'']
   \<and> rclone_args nodup_world demo_photo
     = [gostr ''copy'', demo_photo, gostr ''google-photos:Uploaded Photos'']
   \<and> demo_photo \<in> files demo_world
   \<and> fst (uploadFile (\<lambda>n. if n = 0 then Exited 1 else Exited 0) demo_photo demo_world) = None
   \<and> fst (uploadFile (\<lambda>n. Exited 1) demo_photo demo_world) \<noteq> None
   \<and> uploadFile (\<lambda>n. Exited 0) demo_photo demo_world
       = (None, demo_world\<lparr>events := events demo_world
                    @ [Stat demo_photo, Exec (gostr ''rclone'') (rclone_args demo_world demo_photo)],
                  runs := Suc (runs demo_world)\<rparr>)
   \<and> Exec (gostr ''rclone'') (rclone_args demo_world demo_photo)
       \<in> set (added demo_world (process_item (\<lambda>n. Exited 0) demo_photo demo_world))"
proof -
  have k: "demo_photo \<in> files demo_world \<and> 1 \<le> RetryCount (Upload (config demo_world))"
    by (simp add: demo_facts)
  have 1: "rclone_args demo_world demo_photo
     = [gostr ''copy'', demo_photo, gostr ''google-photos:Uploaded Photos'', gostr ''--checksum'']"
    using rclone_invocation [of demo_world demo_photo "\<lambda>n. Exited 0", THEN conjunct1]
    by (simp add: demo_world_def demo_config_def colon_def gostr_def)
  have 2: "rclone_args nodup_world demo_photo
     = [gostr ''copy'', demo_photo, gostr ''google-photos:Uploaded Photos'']"
    using rclone_invocation [of nodup_world demo_photo "\<lambda>n. Exited 0", THEN conjunct1]
    by (simp add: nodup_world_def demo_world_def demo_config_def colon_def gostr_def)
  have "\<exists>j < nat (RetryCount (Upload (config demo_world))).
      (\<lambda>n. if n = 0 then Exited 1 else Exited 0) (runs demo_world + j) = Exited 0"
    by (rule exI [of _ 1]) (simp add: demo_facts)
  then have 3: "fst (uploadFile (\<lambda>n. if n = 0 then Exited 1 else Exited 0) demo_photo demo_world)
      = None"
    using rclone_invocation [of demo_world demo_photo "\<lambda>n. if n = 0 then Exited 1 else Exited 0"] k
    by blast
  have "\<not> (\<exists>j < nat (RetryCount (Upload (config demo_world))).
      (\<lambda>n. Exited 1) (runs demo_world + j) = Exited 0)"
    by simp
  then have 4: "fst (uploadFile (\<lambda>n. Exited 1) demo_photo demo_world) \<noteq> None"
    using rclone_invocation [of demo_world demo_photo "\<lambda>n. Exited 1"] k
    by blast
  have 5: "uploadFile (\<lambda>n. Exited 0) demo_photo demo_world
       = (None, demo_world\<lparr>events := events demo_world
                    @ [Stat demo_photo, Exec (gostr ''rclone'') (rclone_args demo_world demo_photo)],
                  runs := Suc (runs demo_world)\<rparr>)"
    using rclone_invocation [of demo_world demo_photo "\<lambda>n. Exited 0"] k
    by blast
  have u: "uploadFile (\<lambda>n. Exited 0) demo_photo (logf InfoLevel demo_world)
      = (None, (logf InfoLevel demo_world)\<lparr>events := events (logf InfoLevel demo_world)
            @ [Stat demo_photo,
               Exec (gostr ''rclone'') (rclone_args (logf InfoLevel demo_world) demo_photo)],
          runs := Suc (runs (logf InfoLevel demo_world))\<rparr>)"
    by (rule uploadFile_first_ok) (simp_all add: logf_simps demo_facts)
  have args: "rclone_args (logf InfoLevel demo_world) demo_photo
      = rclone_args demo_world demo_photo"
    by (simp add: rclone_args_def logf_simps)
  have 6: "Exec (gostr ''rclone'') (rclone_args demo_world demo_photo)
       \<in> set (added demo_world (process_item (\<lambda>n. Exited 0) demo_photo demo_world))"
    using process_item_unfold [OF u] demo_facts(8)
    by (simp add: args logf_simps added_def)
  from 1 2 3 4 5 6 k show ?thesis by blast
qed

section \<open>The watcher\<close>

lemma handleFileCreated_ignored:
  "\<not> isSupportedFile uni w path \<Longrightarrow> handleFileCreated uni pick path w = (Ignored, w)"
  by (simp add: handleFileCreated_def)

lemma handleFileCreated_supported:
  assumes "isSupportedFile uni w path"
  shows "handleFileCreated uni pick path w =
     (let w2 = w\<lparr>events := events w
                 @ [Log InfoLevel, Sleep (seconds (WaitTime (Upload (config w))))]\<rparr>
      in case select2 pick (ctx_done w) (send_ready (uploadChan w)) of
           TakeDone \<Rightarrow> (Abandoned, w2)
         | Park \<Rightarrow> (SendParked, w2)
         | TakeChan \<Rightarrow>
             if closed (uploadChan w) then (SendPanicked, w2)
             else (Enqueued,
                   w\<lparr>uploadChan := chan_push path (uploadChan w),
                     events := events w
                       @ [Log InfoLevel, Sleep (seconds (WaitTime (Upload (config w)))),
                          Send path, Log DebugLevel]\<rparr>))"
  using assms
  by (simp add: handleFileCreated_def Let_def logf_def time_Sleep_def emit_def
      split: choice.splits)

lemma select2_cases:
  "(select2 pick d r = TakeChan) = (r \<and> (d \<longrightarrow> pick))"
  "(select2 pick d r = TakeDone) = (d \<and> (r \<longrightarrow> \<not> pick))"
  "(select2 pick d r = Park) = (\<not> d \<and> \<not> r)"
  by (auto simp: select2_def)

text \<open>
  C1. An event whose path fails the extension filter changes nothing. For a
  path that passes, the watcher logs, sleeps the settle delay and reaches the select.
  The path is appended to the channel, once, exactly when the send is taken: the channel
  is open and has room, and the select does not take \<open>ctx.Done()\<close>. When the select
  takes \<open>ctx.Done()\<close> the enqueue is abandoned; with a full channel and no cancellation
  the watcher stays parked; in neither case is anything enqueued. An event that is not
  a creation does not reach the handler.
\<close>

theorem handleFileCreated_enqueue:
  "(\<not> isSupportedFile uni w path \<longrightarrow> handleFileCreated uni pick path w = (Ignored, w))
   \<and> (isSupportedFile uni w path \<longrightarrow>
        (\<exists>tr. added w (snd (handleFileCreated uni pick path w))
           = Log InfoLevel # Sleep (seconds (WaitTime (Upload (config w)))) # tr)
        \<and> (fst (handleFileCreated uni pick path w) = Enqueued)
            = (\<not> closed (uploadChan w) \<and> length (buf (uploadChan w)) < cap (uploadChan w)
               \<and> (ctx_done w \<longrightarrow> pick))
        \<and> (fst (handleFileCreated uni pick path w) = Abandoned)
            = (ctx_done w \<and> (send_ready (uploadChan w) \<longrightarrow> \<not> pick))
        \<and> (fst (handleFileCreated uni pick path w) = SendParked)
            = (\<not> ctx_done w \<and> \<not> send_ready (uploadChan w))
        \<and> (fst (handleFileCreated uni pick path w) = SendPanicked)
            = (closed (uploadChan w) \<and> (ctx_done w \<longrightarrow> pick)))
   \<and> (fst (handleFileCreated uni pick path w) = Enqueued \<longrightarrow>
        snd (handleFileCreated uni pick path w)
          = w\<lparr>uploadChan := (uploadChan w)\<lparr>buf := buf (uploadChan w) @ [path]\<rparr>,
              events := events w
                @ [Log InfoLevel, Sleep (seconds (WaitTime (Upload (config w)))),
                   Send path, Log DebugLevel]\<rparr>)
   \<and> (fst (handleFileCreated uni pick path w) \<noteq> Enqueued \<longrightarrow>
        uploadChan (snd (handleFileCreated uni pick path w)) = uploadChan w
        \<and> filter is_Send (added w (snd (handleFileCreated uni pick path w))) = [])
   \<and> length (filter is_Send (added w (snd (handleFileCreated uni pick path w)))) \<le> 1
   \<and> (Op ev AND Create = Create \<longrightarrow>
        watch_event uni pick ev w = handleFileCreated uni pick (Name ev) w)
   \<and> (Op ev AND Create \<noteq> Create \<longrightarrow> watch_event uni pick ev w = (Ignored, w))"
proof -
  let ?h = "handleFileCreated uni pick path w"
  have 1: "\<not> isSupportedFile uni w path \<longrightarrow> ?h = (Ignored, w)"
    by (simp add: handleFileCreated_ignored)
  have 2: "(\<exists>tr. added w (snd ?h)
           = Log InfoLevel # Sleep (seconds (WaitTime (Upload (config w)))) # tr)
        \<and> (fst ?h = Enqueued)
            = (\<not> closed (uploadChan w) \<and> length (buf (uploadChan w)) < cap (uploadChan w)
               \<and> (ctx_done w \<longrightarrow> pick))
        \<and> (fst ?h = Abandoned)
            = (ctx_done w \<and> (send_ready (uploadChan w) \<longrightarrow> \<not> pick))
        \<and> (fst ?h = SendParked)
            = (\<not> ctx_done w \<and> \<not> send_ready (uploadChan w))
        \<and> (fst ?h = SendPanicked)
            = (closed (uploadChan w) \<and> (ctx_done w \<longrightarrow> pick))"
    if s: "isSupportedFile uni w path"
  proof (cases "select2 pick (ctx_done w) (send_ready (uploadChan w))")
    case TakeDone
    then show ?thesis
      using handleFileCreated_supported [OF s, of pick] select2_cases [of pick "ctx_done w" "send_ready (uploadChan w)"]
      by (auto simp: Let_def added_def send_ready_def)
  next
    case TakeChan
    then show ?thesis
      using handleFileCreated_supported [OF s, of pick] select2_cases [of pick "ctx_done w" "send_ready (uploadChan w)"]
      by (auto simp: Let_def added_def send_ready_def)
  next
    case Park
    then show ?thesis
      using handleFileCreated_supported [OF s, of pick] select2_cases [of pick "ctx_done w" "send_ready (uploadChan w)"]
      by (auto simp: Let_def added_def send_ready_def)
  qed
  have 3: "fst ?h = Enqueued \<longrightarrow>
        snd ?h
          = w\<lparr>uploadChan := (uploadChan w)\<lparr>buf := buf (uploadChan w) @ [path]\<rparr>,
              events := events w
                @ [Log InfoLevel, Sleep (seconds (WaitTime (Upload (config w)))),
                   Send path, Log DebugLevel]\<rparr>"
  proof (cases "isSupportedFile uni w path")
    case False
    then show ?thesis by (simp add: handleFileCreated_ignored)
  next
    case True
    show ?thesis
      unfolding handleFileCreated_supported [OF True]
      by (simp add: Let_def chan_push_def split: choice.splits)
  qed
  have 4: "fst ?h \<noteq> Enqueued \<longrightarrow>
        uploadChan (snd ?h) = uploadChan w \<and> filter is_Send (added w (snd ?h)) = []"
  proof (cases "isSupportedFile uni w path")
    case False
    then show ?thesis by (simp add: handleFileCreated_ignored added_def)
  next
    case True
    show ?thesis
      unfolding handleFileCreated_supported [OF True]
      by (simp add: Let_def added_def is_Send_def split: choice.splits)
  qed
  have 5: "length (filter is_Send (added w (snd ?h))) \<le> 1"
  proof (cases "isSupportedFile uni w path")
    case False
    then show ?thesis by (simp add: handleFileCreated_ignored added_def)
  next
    case True
    show ?thesis
      unfolding handleFileCreated_supported [OF True]
      by (simp add: Let_def added_def is_Send_def split: choice.splits)
  qed
  have 6: "Op ev AND Create = Create \<longrightarrow>
        watch_event uni pick ev w = handleFileCreated uni pick (Name ev) w"
    by (simp add: watch_event_def)
  have 7: "Op ev AND Create \<noteq> Create \<longrightarrow> watch_event uni pick ev w = (Ignored, w)"
    by (simp add: watch_event_def)
  from 1 2 3 4 5 6 7 show ?thesis by blast
qed


lemma demo_supported:
  "config w = demo_config \<Longrightarrow> isSupportedFile (\<lambda>a b. False) w demo_photo"
  "config w = demo_config \<Longrightarrow> \<not> isSupportedFile (\<lambda>a b. False) w text_file"
  by (simp_all add: isSupportedFile_def Ext_def demo_config_def demo_photo_def text_file_def
      gostr_def dot_def slash_def rune_fold_def fold_orbit_def RuneSelf_def)

lemma demo_configs:
  "config demo_world = demo_config"
  "config full_cancelled_world = demo_config"
  "config (Stop demo_world) = demo_config"
  by (simp_all add: demo_world_def full_cancelled_world_def Stop_def logf_def emit_def Let_def)

theorem handleFileCreated_enqueue_witness:
  "isSupportedFile (\<lambda>a b. False) demo_world demo_photo
   \<and> handleFileCreated (\<lambda>a b. False) True demo_photo demo_world
       = (Enqueued,
          demo_world\<lparr>uploadChan := (uploadChan demo_world)\<lparr>buf := [demo_photo]\<rparr>,
                     events := [Log InfoLevel, Sleep (seconds 30), Send demo_photo,
                                Log DebugLevel]\<rparr>)
   \<and> \<not> isSupportedFile (\<lambda>a b. False) demo_world text_file
   \<and> handleFileCreated (\<lambda>a b. False) True text_file demo_world = (Ignored, demo_world)
   \<and> fst (handleFileCreated (\<lambda>a b. False) True demo_photo full_cancelled_world) \<noteq> Enqueued
   \<and> uploadChan (snd (handleFileCreated (\<lambda>a b. False) True demo_photo full_cancelled_world))
       = uploadChan full_cancelled_world
   \<and> watch_event (\<lambda>a b. False) True \<lparr>Name = demo_photo, Op = 1\<rparr> demo_world
       = handleFileCreated (\<lambda>a b. False) True demo_photo demo_world
   \<and> watch_event (\<lambda>a b. False) True \<lparr>Name = demo_photo, Op = 2\<rparr> demo_world
       = (Ignored, demo_world)"
proof -
  note s = demo_supported [OF demo_configs(1)]
  note sc = demo_supported(1) [OF demo_configs(2)]
  note A = handleFileCreated_enqueue
    [of "\<lambda>a b. False" demo_world demo_photo True "\<lparr>Name = demo_photo, Op = 1\<rparr>"]
  note B = handleFileCreated_enqueue
    [of "\<lambda>a b. False" demo_world text_file True "\<lparr>Name = demo_photo, Op = 2\<rparr>"]
  note C = handleFileCreated_enqueue
    [of "\<lambda>a b. False" full_cancelled_world demo_photo True "\<lparr>Name = demo_photo, Op = 2\<rparr>"]
  have room: "\<not> closed (uploadChan demo_world)
      \<and> length (buf (uploadChan demo_world)) < cap (uploadChan demo_world)
      \<and> (ctx_done demo_world \<longrightarrow> True)"
    by (simp add: demo_world_def make_chan_def)
  have full: "\<not> (\<not> closed (uploadChan full_cancelled_world)
      \<and> length (buf (uploadChan full_cancelled_world)) < cap (uploadChan full_cancelled_world)
      \<and> (ctx_done full_cancelled_world \<longrightarrow> True))"
    by (simp add: full_cancelled_world_def make_chan_def)
  have e: "fst (handleFileCreated (\<lambda>a b. False) True demo_photo demo_world) = Enqueued"
    using A s(1) room by blast
  then have "snd (handleFileCreated (\<lambda>a b. False) True demo_photo demo_world)
      = demo_world\<lparr>uploadChan := (uploadChan demo_world)\<lparr>buf := buf (uploadChan demo_world) @ [demo_photo]\<rparr>,
              events := events demo_world
                @ [Log InfoLevel, Sleep (seconds (WaitTime (Upload (config demo_world)))),
                   Send demo_photo, Log DebugLevel]\<rparr>"
    using A by blast
  then have "snd (handleFileCreated (\<lambda>a b. False) True demo_photo demo_world)
      = demo_world\<lparr>uploadChan := (uploadChan demo_world)\<lparr>buf := [demo_photo]\<rparr>,
                     events := [Log InfoLevel, Sleep (seconds 30), Send demo_photo,
                                Log DebugLevel]\<rparr>"
    by (simp add: demo_facts) (simp add: demo_world_def make_chan_def)
  with e have 1: "handleFileCreated (\<lambda>a b. False) True demo_photo demo_world
       = (Enqueued,
          demo_world\<lparr>uploadChan := (uploadChan demo_world)\<lparr>buf := [demo_photo]\<rparr>,
                     events := [Log InfoLevel, Sleep (seconds 30), Send demo_photo,
                                Log DebugLevel]\<rparr>)"
    by (simp add: prod_eq_iff)
  have 2: "handleFileCreated (\<lambda>a b. False) True text_file demo_world = (Ignored, demo_world)"
    using B s(2) by blast
  have 3: "fst (handleFileCreated (\<lambda>a b. False) True demo_photo full_cancelled_world) \<noteq> Enqueued"
    using C sc full by blast
  then have 4: "uploadChan (snd (handleFileCreated (\<lambda>a b. False) True demo_photo full_cancelled_world))
       = uploadChan full_cancelled_world"
    using C by blast
  have op1: "Op \<lparr>Name = demo_photo, Op = 1\<rparr> AND Create = Create" by (simp add: Create_def)
  have op2: "Op \<lparr>Name = demo_photo, Op = 2\<rparr> AND Create \<noteq> Create" by (simp add: Create_def)
  have 5: "watch_event (\<lambda>a b. False) True \<lparr>Name = demo_photo, Op = 1\<rparr> demo_world
       = handleFileCreated (\<lambda>a b. False) True demo_photo demo_world"
    using A op1 by simp
  have 6: "watch_event (\<lambda>a b. False) True \<lparr>Name = demo_photo, Op = 2\<rparr> demo_world
       = (Ignored, demo_world)"
    using B op2 by blast
  from s 1 2 3 4 5 6 show ?thesis by blast
qed

theorem handleFileCreated_enqueue_counterexample:
  "isSupportedFile (\<lambda>a b. False) full_cancelled_world demo_photo
   \<and> fst (handleFileCreated (\<lambda>a b. False) True demo_photo full_cancelled_world) = Abandoned
   \<and> fst (handleFileCreated (\<lambda>a b. False) False demo_photo full_cancelled_world) = Abandoned
   \<and> buf (uploadChan (snd (handleFileCreated (\<lambda>a b. False) True demo_photo full_cancelled_world)))
       = buf (uploadChan full_cancelled_world)
   \<and> buf (uploadChan (snd (handleFileCreated (\<lambda>a b. False) False demo_photo full_cancelled_world)))
       = buf (uploadChan full_cancelled_world)
   \<and> isSupportedFile (\<lambda>a b. False) (Stop demo_world) demo_photo
   \<and> fst (handleFileCreated (\<lambda>a b. False) False demo_photo (Stop demo_world)) = Abandoned
   \<and> buf (uploadChan (snd (handleFileCreated (\<lambda>a b. False) False demo_photo (Stop demo_world))))
       = []"
proof -
  note s1 = demo_supported(1) [OF demo_configs(2)]
  note s2 = demo_supported(1) [OF demo_configs(3)]
  have f: "ctx_done full_cancelled_world" "\<not> send_ready (uploadChan full_cancelled_world)"
    by (simp_all add: full_cancelled_world_def make_chan_def send_ready_def)
  have st: "ctx_done (Stop demo_world)" "send_ready (uploadChan (Stop demo_world))"
    "buf (uploadChan (Stop demo_world)) = []"
    by (simp_all add: Stop_def Let_def logf_def emit_def demo_world_def make_chan_def
        send_ready_def)
  have 1: "handleFileCreated (\<lambda>a b. False) pick demo_photo full_cancelled_world
      = (Abandoned, full_cancelled_world\<lparr>events := events full_cancelled_world
           @ [Log InfoLevel, Sleep (seconds (WaitTime (Upload (config full_cancelled_world))))]\<rparr>)"
    for pick
    unfolding handleFileCreated_supported [OF s1] using f by (simp add: select2_def)
  have 2: "handleFileCreated (\<lambda>a b. False) False demo_photo (Stop demo_world)
      = (Abandoned, (Stop demo_world)\<lparr>events := events (Stop demo_world)
           @ [Log InfoLevel, Sleep (seconds (WaitTime (Upload (config (Stop demo_world)))))]\<rparr>)"
    unfolding handleFileCreated_supported [OF s2] using st by (simp add: select2_def)
  show ?thesis using s1 s2 st(3) by (simp add: 1 2)
qed

section \<open>The upload channel\<close>

lemma process_item_frame:
  "uploadChan (process_item tool path w) = uploadChan w"
  "ctx_done (process_item tool path w) = ctx_done w"
  "config (process_item tool path w) = config w"
proof -
  obtain res tr n where
    u: "uploadFile tool path (logf InfoLevel w)
       = (res, w\<lparr>events := events w @ Log InfoLevel # Stat path # tr, runs := runs w + n\<rparr>)"
    by (rule process_item_shape)
  note p = process_item_unfold [OF u]
  show "uploadChan (process_item tool path w) = uploadChan w"
    unfolding p by (simp add: logf_def emit_def split: option.splits)
  show "ctx_done (process_item tool path w) = ctx_done w"
    unfolding p by (simp add: logf_def emit_def split: option.splits)
  show "config (process_item tool path w) = config w"
    unfolding p by (simp add: logf_def emit_def split: option.splits)
qed

lemma worker_iter_Next:
  assumes "fst (worker_iter tool pick w) = Next"
  shows "\<exists>x rest. buf (uploadChan w) = x # rest
     \<and> worker_iter tool pick w
         = (Next, process_item tool x
                    (emit (Recv x) (w\<lparr>uploadChan := (uploadChan w)\<lparr>buf := rest\<rparr>\<rparr>)))"
  using assms
  by (auto simp: worker_iter_def split: choice.splits list.splits)

text \<open>
  C7. \<open>NewPhotoUploader\<close> makes the upload channel with capacity 100 whatever
  the configuration holds, and no function changes the capacity. The channel is bounded:
  a path is enqueued only while fewer than \<open>cap\<close> paths are buffered. It is first in,
  first out: the watcher appends at the end, the worker takes the oldest path.
\<close>

theorem upload_queue_capacity:
  "NewPhotoUploader (Some cfg) True
     = Inr \<lparr>config = cfg, uploadChan = \<lparr>buf = [], cap = 100, closed = False\<rparr>, ctx_done = False\<rparr>
   \<and> (NewPhotoUploader loaded watcher_ok = Inr p \<longrightarrow> cap (uploadChan p) = 100)
   \<and> cap (uploadChan (snd (handleFileCreated uni pick path w))) = cap (uploadChan w)
   \<and> cap (uploadChan (snd (worker_iter tool pick w))) = cap (uploadChan w)
   \<and> (fst (handleFileCreated uni pick path w) = Enqueued \<longrightarrow>
        length (buf (uploadChan w)) < cap (uploadChan w)
        \<and> buf (uploadChan (snd (handleFileCreated uni pick path w))) = buf (uploadChan w) @ [path])
   \<and> (fst (worker_iter tool pick w) = Next \<longrightarrow>
        (\<exists>x rest tr. buf (uploadChan w) = x # rest
           \<and> buf (uploadChan (snd (worker_iter tool pick w))) = rest
           \<and> added w (snd (worker_iter tool pick w)) = Recv x # tr))"
proof -
  have 1: "NewPhotoUploader (Some cfg) True
     = Inr \<lparr>config = cfg, uploadChan = \<lparr>buf = [], cap = 100, closed = False\<rparr>, ctx_done = False\<rparr>"
    by (simp add: NewPhotoUploader_def make_chan_def)
  have 2: "NewPhotoUploader loaded watcher_ok = Inr p \<longrightarrow> cap (uploadChan p) = 100"
    by (auto simp: NewPhotoUploader_def make_chan_def split: option.splits if_splits)
  have 3: "cap (uploadChan (snd (handleFileCreated uni pick path w))) = cap (uploadChan w)"
  proof (cases "isSupportedFile uni w path")
    case False
    then show ?thesis by (simp add: handleFileCreated_ignored)
  next
    case True
    show ?thesis
      unfolding handleFileCreated_supported [OF True]
      by (simp add: Let_def chan_push_def split: choice.splits)
  qed
  have 4: "cap (uploadChan (snd (worker_iter tool pick w))) = cap (uploadChan w)"
    by (simp add: worker_iter_def process_item_frame emit_def split: choice.splits list.splits)
  have 5: "length (buf (uploadChan w)) < cap (uploadChan w)
        \<and> buf (uploadChan (snd (handleFileCreated uni pick path w))) = buf (uploadChan w) @ [path]"
    if e: "fst (handleFileCreated uni pick path w) = Enqueued"
  proof -
    have s: "isSupportedFile uni w path"
      using e by (rule_tac ccontr) (simp add: handleFileCreated_ignored)
    from e show ?thesis
      unfolding handleFileCreated_supported [OF s]
      by (auto simp: Let_def chan_push_def select2_def send_ready_def
          split: choice.splits if_splits)
  qed
  have 6: "\<exists>x rest tr. buf (uploadChan w) = x # rest
           \<and> buf (uploadChan (snd (worker_iter tool pick w))) = rest
           \<and> added w (snd (worker_iter tool pick w)) = Recv x # tr"
    if n: "fst (worker_iter tool pick w) = Next"
  proof -
    from worker_iter_Next [OF n] obtain x rest where
      b: "buf (uploadChan w) = x # rest"
      and wi: "worker_iter tool pick w
         = (Next, process_item tool x
                    (emit (Recv x) (w\<lparr>uploadChan := (uploadChan w)\<lparr>buf := rest\<rparr>\<rparr>)))"
      by blast
    let ?w0 = "emit (Recv x) (w\<lparr>uploadChan := (uploadChan w)\<lparr>buf := rest\<rparr>\<rparr>)"
    obtain res tr' n where
      u: "uploadFile tool x (logf InfoLevel ?w0)
       = (res, ?w0\<lparr>events := events ?w0 @ Log InfoLevel # Stat x # tr', runs := runs ?w0 + n\<rparr>)"
      by (rule process_item_shape)
    have ev: "\<exists>es. events (process_item tool x ?w0) = events ?w0 @ es"
      unfolding process_item_unfold [OF u]
      by (simp add: logf_def emit_def split: option.splits)
    then obtain es where es: "events (process_item tool x ?w0) = events w @ Recv x # es"
      by (auto simp: emit_def)
    have "buf (uploadChan (snd (worker_iter tool pick w))) = rest"
      unfolding wi by (simp add: process_item_frame emit_def)
    moreover have "added w (snd (worker_iter tool pick w)) = Recv x # es"
      unfolding wi by (simp add: added_def es)
    ultimately show ?thesis using b by blast
  qed
  from 1 2 3 4 5 6 show ?thesis by blast
qed

theorem upload_queue_capacity_witness:
  "NewPhotoUploader (Some big_config) True
     = Inr \<lparr>config = big_config, uploadChan = \<lparr>buf = [], cap = 100, closed = False\<rparr>,
            ctx_done = False\<rparr>
   \<and> cap (uploadChan \<lparr>config = big_config, uploadChan = \<lparr>buf = [], cap = 100, closed = False\<rparr>,
            ctx_done = False\<rparr>) = 100
   \<and> fst (handleFileCreated (\<lambda>a b. False) True demo_photo demo_world) = Enqueued
   \<and> buf (uploadChan (snd (handleFileCreated (\<lambda>a b. False) True demo_photo demo_world)))
       = buf (uploadChan demo_world) @ [demo_photo]
   \<and> fst (worker_iter (\<lambda>n. Exited 0) True queued_world) = Next
   \<and> buf (uploadChan (snd (worker_iter (\<lambda>n. Exited 0) True queued_world))) = []"
proof -
  note T = upload_queue_capacity [of big_config "Some big_config" True
      "\<lparr>config = big_config, uploadChan = \<lparr>buf = [], cap = 100, closed = False\<rparr>, ctx_done = False\<rparr>"
      "\<lambda>a b. False" True demo_photo demo_world "\<lambda>n. Exited 0" ]
  note U = upload_queue_capacity [of big_config "Some big_config" True
      "\<lparr>config = big_config, uploadChan = \<lparr>buf = [], cap = 100, closed = False\<rparr>, ctx_done = False\<rparr>"
      "\<lambda>a b. False" True demo_photo queued_world "\<lambda>n. Exited 0" ]
  have 1: "NewPhotoUploader (Some big_config) True
     = Inr \<lparr>config = big_config, uploadChan = \<lparr>buf = [], cap = 100, closed = False\<rparr>,
            ctx_done = False\<rparr>"
    using T by blast
  then have 2: "cap (uploadChan \<lparr>config = big_config,
      uploadChan = \<lparr>buf = [], cap = 100, closed = False\<rparr>, ctx_done = False\<rparr>) = 100"
    using T by blast
  have e: "fst (handleFileCreated (\<lambda>a b. False) True demo_photo demo_world) = Enqueued"
    unfolding handleFileCreated_supported [OF demo_supported(1) [OF demo_configs(1)]]
    by (simp add: select2_def send_ready_def demo_world_def make_chan_def)
  then have 3: "buf (uploadChan (snd (handleFileCreated (\<lambda>a b. False) True demo_photo demo_world)))
       = buf (uploadChan demo_world) @ [demo_photo]"
    using T by blast
  have n: "fst (worker_iter (\<lambda>n. Exited 0) True queued_world) = Next"
    by (simp add: worker_iter_def select2_def recv_ready_def more_demo_facts)
  then have "\<exists>x rest tr. buf (uploadChan queued_world) = x # rest
      \<and> buf (uploadChan (snd (worker_iter (\<lambda>n. Exited 0) True queued_world))) = rest
      \<and> added queued_world (snd (worker_iter (\<lambda>n. Exited 0) True queued_world)) = Recv x # tr"
    using U by blast
  then have 4: "buf (uploadChan (snd (worker_iter (\<lambda>n. Exited 0) True queued_world))) = []"
    by (auto simp: more_demo_facts)
  from 1 2 e 3 n 4 show ?thesis by blast
qed

theorem upload_queue_capacity_counterexample:
  "Upload demo_config
     = \<lparr>ConcurrentUploads = 2, WaitTime = 30, RetryCount = 3, RetryInterval = 5\<rparr>
   \<and> NewPhotoUploader (Some demo_config) True
     = Inr \<lparr>config = demo_config, uploadChan = \<lparr>buf = [], cap = 100, closed = False\<rparr>,
            ctx_done = False\<rparr>
   \<and> Upload big_config
     = \<lparr>ConcurrentUploads = 1000, WaitTime = 1, RetryCount = 1000, RetryInterval = 1000\<rparr>
   \<and> NewPhotoUploader (Some big_config) True
     = Inr \<lparr>config = big_config, uploadChan = \<lparr>buf = [], cap = 100, closed = False\<rparr>,
            ctx_done = False\<rparr>"
  by (simp add: NewPhotoUploader_def make_chan_def demo_config_def big_config_def)

section \<open>Cancellation\<close>

lemma retry_loop_ctx:
  "retry_loop tool args i (w\<lparr>ctx_done := b\<rparr>)
     = (fst (retry_loop tool args i w), (snd (retry_loop tool args i w))\<lparr>ctx_done := b\<rparr>)"
proof (induction tool args i w rule: retry_loop.induct)
  case (1 tool args i w)
  let ?K = "RetryCount (Upload (config w))"
  let ?w1 = "emit (Exec (gostr ''rclone'') args) (w\<lparr>runs := Suc (runs w)\<rparr>)"
  let ?w3 = "time_Sleep (seconds (RetryInterval (Upload (config w)))) (logf WarnLevel ?w1)"
  let ?v = "w\<lparr>ctx_done := b\<rparr>"
  have cfg: "RetryCount (Upload (config ?v)) = ?K" "runs ?v = runs w" by simp_all
  consider (stop) "\<not> i < ?K" | (ok) "i < ?K" "\<not> run_failed (tool (runs w))"
    | (final) "i < ?K" "run_failed (tool (runs w))" "\<not> i < ?K - 1"
    | (again) "i < ?K - 1" "run_failed (tool (runs w))"
    by linarith
  then show ?case
  proof cases
    case stop
    then show ?thesis by (simp add: retry_loop_done)
  next
    case ok
    then show ?thesis by (simp add: retry_loop_ok emit_def)
  next
    case final
    then show ?thesis by (simp add: retry_loop_last emit_def logf_def)
  next
    case again
    then have lt: "i < ?K" by simp
    have cr: "(tool (runs w), ?w1) = cmd_Run tool args w" by (simp add: cmd_Run_def)
    note IH = "1.IH" [OF lt cr again(2) refl again(1)]
    have eq: "time_Sleep (seconds (RetryInterval (Upload (config ?v))))
          (logf WarnLevel (emit (Exec (gostr ''rclone'') args) (?v\<lparr>runs := Suc (runs ?v)\<rparr>)))
        = ?w3\<lparr>ctx_done := b\<rparr>"
      by (cases w) (simp add: emit_def logf_def time_Sleep_def)
    have "retry_loop tool args i ?v = retry_loop tool args (i + 1) (?w3\<lparr>ctx_done := b\<rparr>)"
      using again retry_loop_again [of i ?v tool args] unfolding eq by simp
    also note IH
    also have "retry_loop tool args (i + 1) ?w3 = retry_loop tool args i w"
      using again by (simp add: retry_loop_again)
    finally show ?thesis .
  qed
qed

lemma uploadFile_ctx:
  "uploadFile tool path (w\<lparr>ctx_done := b\<rparr>)
     = (fst (uploadFile tool path w), (snd (uploadFile tool path w))\<lparr>ctx_done := b\<rparr>)"
proof (cases "path \<in> files w")
  case False
  then show ?thesis by (simp add: uploadFile_missing emit_def)
next
  case True
  have "emit (Stat path) (w\<lparr>ctx_done := b\<rparr>) = (emit (Stat path) w)\<lparr>ctx_done := b\<rparr>"
    by (simp add: emit_def)
  moreover have "rclone_args (w\<lparr>ctx_done := b\<rparr>) path = rclone_args w path"
    by (simp add: rclone_args_def)
  ultimately show ?thesis using True by (simp add: uploadFile_present retry_loop_ctx)
qed

lemma worker_iter_cancelled:
  assumes "ctx_done w"
  shows "fst (worker_iter tool pick w) \<noteq> RecvParked"
    and "ctx_done (snd (worker_iter tool pick w))"
  using assms
  by (auto simp: worker_iter_def select2_def process_item_frame emit_def
      split: choice.splits list.splits if_splits)

lemma uploadWorker_loop_cancelled:
  "ctx_done w \<Longrightarrow> fst (uploadWorker_loop tool picks w) = Returned"
proof (induction tool picks w rule: uploadWorker_loop.induct)
  case (1 tool picks w)
  obtain st w' where wi: "worker_iter tool (picks 0) w = (st, w')"
    by (cases "worker_iter tool (picks 0) w")
  from worker_iter_cancelled [OF "1.prems", of tool "picks 0"] wi
  have np: "st \<noteq> RecvParked" and d: "ctx_done w'" by simp_all
  show ?case
  proof (cases st)
    case Next
    from "1.IH" [OF wi [symmetric] Next d]
    have "fst (uploadWorker_loop tool (\<lambda>n. picks (Suc n)) w') = Returned" .
    then show ?thesis
      by (subst uploadWorker_loop.simps) (simp add: wi Next)
  next
    case Returned
    then show ?thesis by (subst uploadWorker_loop.simps) (simp add: wi)
  next
    case RecvParked
    with np show ?thesis by simp
  qed
qed

lemma elapsed_nonneg: "0 \<le> elapsed es"
  by (induction es rule: elapsed.induct) (simp_all add: pause_def)

lemma process_item_ctx:
  "process_item tool path (w\<lparr>ctx_done := b\<rparr>) = (process_item tool path w)\<lparr>ctx_done := b\<rparr>"
proof -
  obtain res w2 where u: "uploadFile tool path (logf InfoLevel w) = (res, w2)"
    by (cases "uploadFile tool path (logf InfoLevel w)")
  have l: "logf InfoLevel (w\<lparr>ctx_done := b\<rparr>) = (logf InfoLevel w)\<lparr>ctx_done := b\<rparr>"
    by (cases w) (simp add: logf_def emit_def)
  have u': "uploadFile tool path (logf InfoLevel (w\<lparr>ctx_done := b\<rparr>)) = (res, w2\<lparr>ctx_done := b\<rparr>)"
    unfolding l uploadFile_ctx u by simp
  show ?thesis
    unfolding process_item_unfold [OF u] process_item_unfold [OF u']
    by (cases w2) (simp add: logf_def emit_def split: option.splits)
qed

text \<open>
  C6. The two selects are aware of cancellation: once the context is done
  neither the watcher's send nor the worker's receive parks, and the worker's loop
  returns. The sleeps are not: \<open>time.Sleep\<close> takes no context, so the settle delay is
  slept in full whatever the state of the context, and \<open>uploadFile\<close> and the worker's
  handling of an item, with its retry sleeps, its runs of the tool and its
  \<open>os.Remove\<close>, do the same whether or not the context is done.
\<close>

theorem cancellation_points:
  "(ctx_done w \<longrightarrow> fst (handleFileCreated uni pick path w) \<noteq> SendParked)
   \<and> (ctx_done w \<longrightarrow> fst (worker_iter tool pick w) \<noteq> RecvParked)
   \<and> (ctx_done w \<longrightarrow> fst (uploadWorker tool picks w) = Returned)
   \<and> (isSupportedFile uni w path \<longrightarrow>
        (\<exists>tr. added w (snd (handleFileCreated uni pick path w))
           = Log InfoLevel # Sleep (seconds (WaitTime (Upload (config w)))) # tr)
        \<and> pause (seconds (WaitTime (Upload (config w))))
            \<le> elapsed (added w (snd (handleFileCreated uni pick path w))))
   \<and> uploadFile tool path (w\<lparr>ctx_done := b\<rparr>)
       = (fst (uploadFile tool path w), (snd (uploadFile tool path w))\<lparr>ctx_done := b\<rparr>)
   \<and> process_item tool path (w\<lparr>ctx_done := b\<rparr>) = (process_item tool path w)\<lparr>ctx_done := b\<rparr>"
proof -
  have 1: "ctx_done w \<longrightarrow> fst (handleFileCreated uni pick path w) \<noteq> SendParked"
  proof (cases "isSupportedFile uni w path")
    case False
    then show ?thesis by (simp add: handleFileCreated_ignored)
  next
    case True
    show ?thesis
      unfolding handleFileCreated_supported [OF True]
      by (simp add: Let_def select2_def split: choice.splits)
  qed
  have 2: "ctx_done w \<longrightarrow> fst (worker_iter tool pick w) \<noteq> RecvParked"
    using worker_iter_cancelled(1) by blast
  have 3: "ctx_done w \<longrightarrow> fst (uploadWorker tool picks w) = Returned"
    by (simp add: uploadWorker_def uploadWorker_loop_cancelled logf_simps)
  have 4: "(\<exists>tr. added w (snd (handleFileCreated uni pick path w))
           = Log InfoLevel # Sleep (seconds (WaitTime (Upload (config w)))) # tr)
        \<and> pause (seconds (WaitTime (Upload (config w))))
            \<le> elapsed (added w (snd (handleFileCreated uni pick path w)))"
    if s: "isSupportedFile uni w path"
  proof -
    have "\<exists>tr. added w (snd (handleFileCreated uni pick path w))
           = Log InfoLevel # Sleep (seconds (WaitTime (Upload (config w)))) # tr"
      unfolding handleFileCreated_supported [OF s]
      by (simp add: Let_def added_def split: choice.splits)
    then obtain tr where a: "added w (snd (handleFileCreated uni pick path w))
           = Log InfoLevel # Sleep (seconds (WaitTime (Upload (config w)))) # tr"
      by blast
    have "pause (seconds (WaitTime (Upload (config w))))
        \<le> elapsed (added w (snd (handleFileCreated uni pick path w)))"
      unfolding a using elapsed_nonneg [of tr] by simp
    with a show ?thesis by blast
  qed
  have 5: "uploadFile tool path (w\<lparr>ctx_done := b\<rparr>)
       = (fst (uploadFile tool path w), (snd (uploadFile tool path w))\<lparr>ctx_done := b\<rparr>)"
    by (rule uploadFile_ctx)
  have 6: "process_item tool path (w\<lparr>ctx_done := b\<rparr>)
       = (process_item tool path w)\<lparr>ctx_done := b\<rparr>"
    by (rule process_item_ctx)
  from 1 2 3 4 5 6 show ?thesis by blast
qed

lemma pause_seconds:
  "pause (seconds 30) = 30000000000"
  "pause (seconds 5) = 5000000000"
  by (simp_all add: pause_def seconds_def Second_def)

theorem cancellation_points_witness:
  "ctx_done cancelled_world
   \<and> fst (handleFileCreated (\<lambda>a b. False) True demo_photo cancelled_world) \<noteq> SendParked
   \<and> fst (worker_iter (\<lambda>n. Exited 0) True cancelled_world) \<noteq> RecvParked
   \<and> fst (uploadWorker (\<lambda>n. Exited 0) (\<lambda>n. True) cancelled_world) = Returned
   \<and> isSupportedFile (\<lambda>a b. False) cancelled_world demo_photo
   \<and> 30000000000
       \<le> elapsed (added cancelled_world
             (snd (handleFileCreated (\<lambda>a b. False) True demo_photo cancelled_world)))"
proof -
  have c: "ctx_done cancelled_world" "config cancelled_world = demo_config"
    "WaitTime (Upload (config cancelled_world)) = 30"
    by (simp_all add: cancelled_world_def demo_world_def demo_config_def)
  note s = demo_supported(1) [OF c(2)]
  note T = cancellation_points [of cancelled_world "\<lambda>a b. False" True demo_photo
      "\<lambda>n. Exited 0" "\<lambda>n. True" True]
  have 1: "fst (handleFileCreated (\<lambda>a b. False) True demo_photo cancelled_world) \<noteq> SendParked"
    using T c(1) by blast
  have 2: "fst (worker_iter (\<lambda>n. Exited 0) True cancelled_world) \<noteq> RecvParked"
    using T c(1) by blast
  have 3: "fst (uploadWorker (\<lambda>n. Exited 0) (\<lambda>n. True) cancelled_world) = Returned"
    using T c(1) by blast
  have "pause (seconds (WaitTime (Upload (config cancelled_world))))
       \<le> elapsed (added cancelled_world
             (snd (handleFileCreated (\<lambda>a b. False) True demo_photo cancelled_world)))"
    using T s by blast
  then have 4: "30000000000
       \<le> elapsed (added cancelled_world
             (snd (handleFileCreated (\<lambda>a b. False) True demo_photo cancelled_world)))"
    by (simp only: c(3) pause_seconds)
  from c(1) 1 2 3 s 4 show ?thesis by blast
qed

theorem cancellation_points_counterexample:
  "ctx_done cancelled_world
   \<and> added cancelled_world
        (snd (handleFileCreated (\<lambda>a b. False) False demo_photo cancelled_world))
       = [Log InfoLevel, Sleep (seconds 30)]
   \<and> elapsed (added cancelled_world
        (snd (handleFileCreated (\<lambda>a b. False) False demo_photo cancelled_world)))
       = 30000000000
   \<and> filter is_Sleep (added cancelled_world
        (snd (uploadFile (\<lambda>n. Exited 1) demo_photo cancelled_world)))
       = [Sleep (seconds 5), Sleep (seconds 5)]
   \<and> elapsed (added cancelled_world
        (snd (uploadFile (\<lambda>n. Exited 1) demo_photo cancelled_world)))
       = 10000000000"
proof -
  have c: "ctx_done cancelled_world" "config cancelled_world = demo_config"
    "WaitTime (Upload (config cancelled_world)) = 30"
    "RetryCount (Upload (config cancelled_world)) = 3"
    "RetryInterval (Upload (config cancelled_world)) = 5"
    "demo_photo \<in> files cancelled_world"
    "send_ready (uploadChan cancelled_world)"
    by (simp_all add: cancelled_world_def demo_world_def demo_config_def send_ready_def
        make_chan_def)
  note s = demo_supported(1) [OF c(2)]
  have h: "added cancelled_world
        (snd (handleFileCreated (\<lambda>a b. False) False demo_photo cancelled_world))
       = [Log InfoLevel, Sleep (seconds 30)]"
    unfolding handleFileCreated_supported [OF s]
    by (simp add: Let_def select2_def c(1,3,4,5,6,7) added_def)
  have k: "1 \<le> RetryCount (Upload (config cancelled_world))" by (simp add: c(4))
  have u: "added cancelled_world (snd (uploadFile (\<lambda>n. Exited 1) demo_photo cancelled_world))
      = [Stat demo_photo,
         Exec (gostr ''rclone'') (rclone_args cancelled_world demo_photo), Log WarnLevel,
         Sleep (seconds 5),
         Exec (gostr ''rclone'') (rclone_args cancelled_world demo_photo), Log WarnLevel,
         Sleep (seconds 5),
         Exec (gostr ''rclone'') (rclone_args cancelled_world demo_photo), Log WarnLevel]"
    unfolding uploadFile_all_fail [OF c(6) k always_failing]
    by (simp add: c(1,3,4,5,6,7) added_def eval_nat_numeral)
  show ?thesis
    unfolding h u using c(1) by (simp add: pause_seconds is_Sleep_def)
qed

end
